theory Spec2Isabelle
  imports Complex_Main
begin

section \<open>Data model (types.ts)\<close>

text \<open>
  The interfaces of \<^verbatim>\<open>types.ts\<close> become records; the field names carry a prefix
  naming the interface, since several interfaces share the names \<^verbatim>\<open>id\<close>,
  \<^verbatim>\<open>status\<close>, \<^verbatim>\<open>notes\<close> and \<^verbatim>\<open>updated_at\<close>. String-literal unions become
  datatypes. A field of type \<^verbatim>\<open>T | null\<close> and an optional parameter
  \<^verbatim>\<open>x?: T\<close> become \<open>T option\<close>. Timestamps are opaque strings.

  Strings are lists of 8-bit characters, so the model covers ASCII text. Port
  numbers are integers. A CVSS score is a finite number, modelled by its exact
  rational value: the source only compares it with 0 and 10, and comparison of
  finite doubles agrees with comparison of the rationals they denote.
\<close>

datatype severity = Critical | High | Medium | Low | Info

datatype finding_status = Confirmed | Potential | Exploited | False_positive

datatype proto = Tcp | Udp

datatype engagement_status = Active | Paused | Completed

datatype cred_type = Password | Hash | Token | Key | Certificate

datatype priority = PHigh | PMedium | PLow

datatype todo_status = Pending | TodoCompleted

datatype source_tag = Mcp | Cli | Nyx_log

record Finding =
  f_id :: string
  f_host :: string
  f_vulnerability :: string
  f_severity :: severity
  f_cvss :: "rat option"
  f_status :: finding_status
  f_evidence_file :: "string option"
  f_notes :: string
  f_created_at :: string
  f_updated_at :: string

record Service =
  s_port :: int
  s_proto :: proto
  s_service :: string
  s_version :: string
  s_notes :: string

record Host =
  h_ip :: string
  h_hostname :: string
  h_os :: string
  h_first_seen :: string
  h_updated_at :: string
  h_services :: "Service list"
  h_enumeration :: string
  h_vulnerabilities :: string
  h_exploitation :: string
  h_post_exploitation :: string
  h_credentials :: string
  h_key_commands :: string

record Credential =
  c_id :: string
  c_source :: string
  c_username :: string
  c_password_or_hash :: string
  c_cred_type :: cred_type
  c_access_level :: string
  c_verified :: bool
  c_created_at :: string

record DeadEnd =
  d_timestamp :: string
  d_technique :: string
  d_target :: string
  d_reason :: string

record Todo =
  t_id :: string
  t_description :: string
  t_priority :: priority
  t_status :: todo_status
  t_created_at :: string
  t_completed_at :: "string option"

record EvidenceEntry =
  e_filename :: string
  e_description :: string
  e_related_finding_id :: "string option"
  e_created_at :: string

record CommandEntry =
  k_id :: string
  k_command :: string
  k_tool :: string
  k_target :: string
  k_started_at :: string
  k_finished_at :: string
  k_duration_seconds :: "rat option"
  k_exit_code :: "int option"
  k_evidence_file :: "string option"
  k_parsed :: bool
  k_source :: source_tag

record AttackPathStep =
  a_step :: nat
  a_description :: string
  a_timestamp :: string

record EngagementMetadata =
  m_id :: string
  m_target :: string
  m_scope :: "string list"
  m_rules_of_engagement :: string
  m_status :: engagement_status
  m_created_at :: string
  m_updated_at :: string
  m_executive_summary :: string
  m_attack_path :: "AttackPathStep list"
  m_findings :: "Finding list"
  m_hosts :: "Host list"
  m_credentials :: "Credential list"
  m_dead_ends :: "DeadEnd list"
  m_todos :: "Todo list"
  m_evidence_index :: "EvidenceEntry list"
  m_command_log :: "CommandEntry list"
  m_schema_version :: nat

record IndexEntry =
  i_id :: string
  i_target :: string
  i_status :: engagement_status
  i_created_at :: string
  i_updated_at :: string
  i_finding_count :: nat
  i_host_count :: nat
  i_credential_count :: nat
  i_command_count :: nat

record ServiceData =
  sd_port :: int
  sd_proto :: proto
  sd_service :: "string option"
  sd_version :: "string option"
  sd_notes :: "string option"

section \<open>JavaScript string primitives used by the source\<close>

text \<open>
  \<^verbatim>\<open>x || d\<close> on an optional string: \<^verbatim>\<open>undefined\<close> and the empty string are
  both falsy, every other string is truthy.
\<close>

definition truthy :: "string option \<Rightarrow> bool" where
  "truthy x = (case x of None \<Rightarrow> False | Some v \<Rightarrow> v \<noteq> [])"

definition or_else :: "string option \<Rightarrow> string \<Rightarrow> string" where
  "or_else x d = (case x of None \<Rightarrow> d | Some v \<Rightarrow> if v = [] then d else v)"

text \<open>\<^verbatim>\<open>x || null\<close> on an optional string.\<close>

definition or_null :: "string option \<Rightarrow> string option" where
  "or_null x = (case x of None \<Rightarrow> None | Some v \<Rightarrow> if v = [] then None else Some v)"

text \<open>\<^verbatim>\<open>String.prototype.toLowerCase\<close> on ASCII text.\<close>

definition lower_char :: "char \<Rightarrow> char" where
  "lower_char c =
     (case map_of (zip ''ABCDEFGHIJKLMNOPQRSTUVWXYZ'' ''abcdefghijklmnopqrstuvwxyz'') c of
        None \<Rightarrow> c | Some d \<Rightarrow> d)"

definition toLowerCase :: "string \<Rightarrow> string" where
  "toLowerCase s = map lower_char s"

text \<open>The character class \<^verbatim>\<open>[a-z0-9]\<close>.\<close>

definition is_lower_alnum :: "char \<Rightarrow> bool" where
  "is_lower_alnum c = (c \<in> set ''abcdefghijklmnopqrstuvwxyz0123456789'')"

text \<open>
  \<^verbatim>\<open>.replace(/[^a-z0-9]+/g, "-")\<close>: every maximal run of characters outside
  \<^verbatim>\<open>[a-z0-9]\<close> is replaced by one hyphen.
\<close>

function replace_runs :: "string \<Rightarrow> string" where
  "replace_runs [] = []"
| "replace_runs (c # cs) =
     (if is_lower_alnum c then c # replace_runs cs
      else CHR ''-'' # replace_runs (dropWhile (\<lambda>d. \<not> is_lower_alnum d) cs))"
  by pat_completeness auto
termination
  by (relation "measure length") (auto simp: less_Suc_eq_le length_dropWhile_le)

text \<open>
  \<^verbatim>\<open>.replace(/^-|-$/g, "")\<close>: one hyphen at the start and one hyphen at the end
  are removed (the global flag finds at most these two matches).
\<close>

definition strip_edge_hyphens :: "string \<Rightarrow> string" where
  "strip_edge_hyphens s =
     (let s1 = (case s of [] \<Rightarrow> [] | c # cs \<Rightarrow> if c = CHR ''-'' then cs else s)
      in if s1 \<noteq> [] \<and> last s1 = CHR ''-'' then butlast s1 else s1)"

section \<open>Engagement identifiers (tools/engagement.ts)\<close>

text \<open>
  \<^verbatim>\<open>
  function slugify(text: string): string {
    return text
      .toLowerCase()
      .replace(/[^a-z0-9]+/g, "-")
      .replace(/^-|-$/g, "")
      .slice(0, 40);
  }
  \<close>
\<close>

definition slugify :: "string \<Rightarrow> string" where
  "slugify text = take 40 (strip_edge_hyphens (replace_runs (toLowerCase text)))"

text \<open>
  The candidate id of \<^verbatim>\<open>createEngagement\<close>, before the collision loop:
  \<^verbatim>\<open>`${datePrefix}-${slug}`\<close>, where the date prefix is the first ten characters of
  the current ISO timestamp and is a parameter here.
\<close>

definition candidate_id :: "string \<Rightarrow> string \<Rightarrow> string" where
  "candidate_id datePrefix target = datePrefix @ ''-'' @ slugify target"

text \<open>
  The shape of a slug: only characters of \<^verbatim>\<open>[a-z0-9]\<close> and hyphens, and no two
  hyphens in a row.
\<close>

fun no_double_hyphen :: "string \<Rightarrow> bool" where
  "no_double_hyphen (a # b # cs) = (\<not> (a = CHR ''-'' \<and> b = CHR ''-'') \<and> no_double_hyphen (b # cs))"
| "no_double_hyphen cs = True"

definition slug_chars :: "string \<Rightarrow> bool" where
  "slug_chars s = list_all (\<lambda>c. is_lower_alnum c \<or> c = CHR ''-'') s"

section \<open>Numbers as strings\<close>

text \<open>
  \<^verbatim>\<open>String(n)\<close> and \<^verbatim>\<open>`${n}`\<close> for a non-negative integer: its decimal digits.
  JavaScript numbers are doubles; the counters of the source (collision suffixes,
  finding numbers) are integers far below \<open>2^53\<close>, where doubles are exact and
  printed in plain decimal, so they are modelled by unbounded integers.
\<close>

definition digit_char :: "nat \<Rightarrow> char" where
  "digit_char d = ''0123456789'' ! d"

fun show_nat :: "nat \<Rightarrow> string" where
  "show_nat n = (if n < 10 then [digit_char n] else show_nat (n div 10) @ [digit_char (n mod 10)])"

declare show_nat.simps [simp del]

definition show_int :: "int \<Rightarrow> string" where
  "show_int k = (if k < 0 then CHR ''-'' # show_nat (nat (- k)) else show_nat (nat k))"

text \<open>\<^verbatim>\<open>s.padStart(3, "0")\<close>.\<close>

definition padStart3 :: "string \<Rightarrow> string" where
  "padStart3 s = replicate (3 - length s) CHR ''0'' @ s"

text \<open>
  \<^verbatim>\<open>s.replace(pat, rep)\<close> with a string pattern: the first occurrence of
  \<^verbatim>\<open>pat\<close> is replaced, the rest of the string is kept.
\<close>

fun replace_first :: "string \<Rightarrow> string \<Rightarrow> string \<Rightarrow> string" where
  "replace_first pat rep [] = (if pat = [] then rep else [])"
| "replace_first pat rep (c # cs) =
     (if take (length pat) (c # cs) = pat then rep @ drop (length pat) (c # cs)
      else c # replace_first pat rep cs)"

text \<open>
  \<^verbatim>\<open>parseInt(s, 10)\<close>: leading white space is skipped, one sign is read, then
  the longest run of decimal digits; with no digit the result is \<^verbatim>\<open>NaN\<close>
  (\<open>None\<close> here). Every comparison with \<^verbatim>\<open>NaN\<close> is false.
\<close>

definition is_space :: "char \<Rightarrow> bool" where
  "is_space c = (c \<in> set [CHR '' '', CHR 0x09, CHR 0x0A, CHR 0x0B, CHR 0x0C, CHR 0x0D])"

definition is_digit :: "char \<Rightarrow> bool" where
  "is_digit c = (c \<in> set ''0123456789'')"

definition digit_val :: "char \<Rightarrow> nat" where
  "digit_val c = of_char c - 48"

definition digits_val :: "string \<Rightarrow> nat" where
  "digits_val s = foldl (\<lambda>acc c. 10 * acc + digit_val c) 0 s"

definition parseInt10 :: "string \<Rightarrow> int option" where
  "parseInt10 s =
     (let s1 = dropWhile is_space s;
          neg = (s1 \<noteq> [] \<and> hd s1 = CHR ''-'');
          s2 = (if s1 \<noteq> [] \<and> (hd s1 = CHR ''-'' \<or> hd s1 = CHR ''+'') then tl s1 else s1);
          z = takeWhile is_digit s2
      in if z = [] then None
         else Some (if neg then - int (digits_val z) else int (digits_val z)))"

text \<open>\<^verbatim>\<open>Array.prototype.findIndex\<close>; \<open>None\<close> stands for \<^verbatim>\<open>-1\<close>.\<close>

fun findIndex :: "('a \<Rightarrow> bool) \<Rightarrow> 'a list \<Rightarrow> nat option" where
  "findIndex P [] = None"
| "findIndex P (x # xs) = (if P x then Some 0 else map_option Suc (findIndex P xs))"

section \<open>The persisted store (storage/index.ts, storage/engine.ts)\<close>

text \<open>
  The files under the data directory, as one state value passed through every
  operation: \<^verbatim>\<open>state.json\<close> (absent or \<^verbatim>\<open>null\<close> is \<open>None\<close>),
  \<^verbatim>\<open>index.json\<close> (absent is the empty list), one \<^verbatim>\<open>metadata.json\<close> per
  engagement directory and the regular files of each engagement's
  \<^verbatim>\<open>evidence\<close> directory, by name. \<^verbatim>\<open>readJSON\<close> and \<^verbatim>\<open>writeJSON\<close> are
  reads and writes of these components; the rendered Markdown reports are written
  after each commit and read by nothing here, so they are left out, and so are the
  temporary files of \<^verbatim>\<open>writeFileAtomic\<close>. Failures that depend on the machine
  (a full disk, permissions, name length limits) and lock contention are outside
  the model; the failures that the file name alone decides are in it.
\<close>

record store =
  current_engagement_id :: "string option"
  index_json :: "IndexEntry list"
  metadata_json :: "string \<Rightarrow> EngagementMetadata option"
  evidence_dir :: "string \<Rightarrow> string \<Rightarrow> string option"

text \<open>
  The error codes thrown by the source. \<open>TypeErrorNull\<close> is the JavaScript
  \<^verbatim>\<open>TypeError\<close> raised when a caller of \<^verbatim>\<open>readJSON(path, null)\<close> reads a
  property of the \<^verbatim>\<open>null\<close> it returns for an absent \<^verbatim>\<open>metadata.json\<close>.
  \<open>EISDIR\<close> is the error of \<^verbatim>\<open>fs.rename\<close> onto a directory and
  \<open>ERR_INVALID_ARG_VALUE\<close> the one of every \<^verbatim>\<open>fs\<close> call on a path with a
  NUL character; the source lets both through as they are.
\<close>

datatype error =
    NoActiveEngagement
  | EngagementNotFound
  | HostNotFound
  | FindingNotFound
  | InvalidCvss
  | InvalidFilename
  | TypeErrorNull
  | EISDIR
  | ERR_INVALID_ARG_VALUE

definition getActiveEngagementId :: "store \<Rightarrow> string option" where
  "getActiveEngagementId s = current_engagement_id s"

definition setActiveEngagement :: "string \<Rightarrow> store \<Rightarrow> store" where
  "setActiveEngagement eid s = s\<lparr>current_engagement_id := Some eid\<rparr>"

definition clearActiveEngagement :: "store \<Rightarrow> store" where
  "clearActiveEngagement s = s\<lparr>current_engagement_id := None\<rparr>"

text \<open>\<^verbatim>\<open>if (!id) throw ...\<close>: \<^verbatim>\<open>null\<close> and the empty string are both falsy.\<close>

definition requireActiveEngagement :: "store \<Rightarrow> error + string" where
  "requireActiveEngagement s =
     (case getActiveEngagementId s of
        None \<Rightarrow> Inl NoActiveEngagement
      | Some eid \<Rightarrow> if eid = [] then Inl NoActiveEngagement else Inr eid)"

definition getIndex :: "store \<Rightarrow> IndexEntry list" where
  "getIndex s = index_json s"

definition updateIndexEntry :: "IndexEntry \<Rightarrow> store \<Rightarrow> store" where
  "updateIndexEntry entry s =
     (let index = getIndex s
      in case findIndex (\<lambda>e. i_id e = i_id entry) index of
           Some existing \<Rightarrow> s\<lparr>index_json := index[existing := entry]\<rparr>
         | None \<Rightarrow> s\<lparr>index_json := index @ [entry]\<rparr>)"

definition removeIndexEntry :: "string \<Rightarrow> store \<Rightarrow> store" where
  "removeIndexEntry eid s = s\<lparr>index_json := filter (\<lambda>e. i_id e \<noteq> eid) (getIndex s)\<rparr>"

definition writeMetadata :: "string \<Rightarrow> EngagementMetadata \<Rightarrow> store \<Rightarrow> store" where
  "writeMetadata eid meta s = s\<lparr>metadata_json := (metadata_json s)(eid := Some meta)\<rparr>"

section \<open>Engagement lifecycle (tools/engagement.ts)\<close>

definition makeEmptyMetadata ::
  "string \<Rightarrow> string \<Rightarrow> string list \<Rightarrow> string \<Rightarrow> string \<Rightarrow> EngagementMetadata" where
  "makeEmptyMetadata eid target scope roe ts =
     \<lparr>m_id = eid, m_target = target, m_scope = scope, m_rules_of_engagement = roe,
      m_status = Active, m_created_at = ts, m_updated_at = ts, m_executive_summary = [],
      m_attack_path = [], m_findings = [], m_hosts = [], m_credentials = [],
      m_dead_ends = [], m_todos = [], m_evidence_index = [], m_command_log = [],
      m_schema_version = 1\<rparr>"

definition buildIndexEntry :: "EngagementMetadata \<Rightarrow> IndexEntry" where
  "buildIndexEntry meta =
     \<lparr>i_id = m_id meta, i_target = m_target meta, i_status = m_status meta,
      i_created_at = m_created_at meta, i_updated_at = m_updated_at meta,
      i_finding_count = length (m_findings meta),
      i_host_count = length (m_hosts meta),
      i_credential_count = length (m_credentials meta),
      i_command_count = length (m_command_log meta)\<rparr>"

text \<open>\<^verbatim>\<open>index.some((e) => e.id === x)\<close>.\<close>

definition index_has :: "IndexEntry list \<Rightarrow> string \<Rightarrow> bool" where
  "index_has index x = list_ex (\<lambda>e. i_id e = x) index"

text \<open>
  \<^verbatim>\<open>
  export async function saveMetadataAndRender(meta) {
    meta.updated_at = now();
    await writeJSON(getMetadataPath(meta.id), meta);
    await updateIndexEntry(buildIndexEntry(meta));
    ... render FINDINGS.md ...
  }
  \<close>
  The argument \<open>ts\<close> is the value of \<^verbatim>\<open>now()\<close>.
\<close>

definition saveMetadataAndRender :: "string \<Rightarrow> EngagementMetadata \<Rightarrow> store \<Rightarrow> store" where
  "saveMetadataAndRender ts meta0 s =
     (let meta = meta0\<lparr>m_updated_at := ts\<rparr>
      in updateIndexEntry (buildIndexEntry meta) (writeMetadata (m_id meta) meta s))"

text \<open>
  \<^verbatim>\<open>loadActiveMetadata\<close>: the active id, then \<^verbatim>\<open>readJSON(path, null)\<close>. Every
  caller reads a property of the result in its next statement, before any write.
\<close>

definition loadActiveMetadata :: "store \<Rightarrow> error + EngagementMetadata" where
  "loadActiveMetadata s =
     (case requireActiveEngagement s of
        Inl e \<Rightarrow> Inl e
      | Inr eid \<Rightarrow> (case metadata_json s eid of None \<Rightarrow> Inl TypeErrorNull | Some meta \<Rightarrow> Inr meta))"

text \<open>
  The collision loop of \<^verbatim>\<open>createEngagement\<close>:
  \<^verbatim>\<open>
    let suffix = 2;
    while (index.some((e) => e.id === `${id}-${suffix}`)) { suffix++; }
  \<close>
  It terminates because the index is finite and distinct suffixes give distinct
  ids: decimal printing is injective.
\<close>

lemma digit_val_digit_char: "d < 10 \<Longrightarrow> digit_val (digit_char d) = d"
  unfolding digit_val_def digit_char_def
  by (auto simp: less_Suc_eq numeral_nat elim!: less_SucE)

lemma digits_val_snoc: "digits_val (xs @ [c]) = 10 * digits_val xs + digit_val c"
  by (simp add: digits_val_def)

lemma digits_val_show_nat: "digits_val (show_nat n) = n"
proof (induction n rule: show_nat.induct)
  case (1 n)
  show ?case
  proof (cases "n < 10")
    case True
    then show ?thesis
      by (simp add: show_nat.simps [of n] digits_val_def digit_val_digit_char)
  next
    case False
    with 1 show ?thesis
      by (simp add: show_nat.simps [of n] digits_val_snoc digit_val_digit_char)
  qed
qed

lemma show_nat_inj: "show_nat a = show_nat b \<Longrightarrow> a = b"
  by (metis digits_val_show_nat)

lemma suffixed_inj: "inj (\<lambda>k. eid @ ''-'' @ show_nat k)"
  by (rule injI) (simp add: show_nat_inj)

lemma finite_taken_suffixes:
  "finite {k. suffix \<le> k \<and> index_has index (eid @ ''-'' @ show_nat k)}"
proof -
  have "{k. suffix \<le> k \<and> index_has index (eid @ ''-'' @ show_nat k)}
        \<subseteq> (\<lambda>k. eid @ ''-'' @ show_nat k) -` (i_id ` set index)"
    by (auto simp: index_has_def list_ex_iff intro: image_eqI [OF sym])
  moreover have "finite ((\<lambda>k. eid @ ''-'' @ show_nat k) -` (i_id ` set index))"
    by (rule finite_vimageI [OF _ suffixed_inj]) simp
  ultimately show ?thesis by (rule finite_subset)
qed

function collision_suffix :: "IndexEntry list \<Rightarrow> string \<Rightarrow> nat \<Rightarrow> nat" where
  "collision_suffix index eid suffix =
     (if index_has index (eid @ ''-'' @ show_nat suffix)
      then collision_suffix index eid (Suc suffix) else suffix)"
  by pat_completeness auto
termination
proof (relation "measure (\<lambda>(index, eid, suffix).
         card {k. suffix \<le> k \<and> index_has index (eid @ ''-'' @ show_nat k)})")
  show "wf (measure (\<lambda>(index, eid, suffix).
         card {k. suffix \<le> k \<and> index_has index (eid @ ''-'' @ show_nat k)}))"
    by simp
next
  fix index :: "IndexEntry list" and eid :: string and suffix :: nat
  assume taken: "index_has index (eid @ ''-'' @ show_nat suffix)"
  let ?A = "\<lambda>n. {k. n \<le> k \<and> index_has index (eid @ ''-'' @ show_nat k)}"
  have "suffix \<in> ?A suffix" "suffix \<notin> ?A (Suc suffix)" "?A (Suc suffix) \<subseteq> ?A suffix"
    using taken by auto
  then have "?A (Suc suffix) \<subset> ?A suffix"
    by blast
  then have "card (?A (Suc suffix)) < card (?A suffix)"
    by (rule psubset_card_mono [OF finite_taken_suffixes])
  then show "((index, eid, Suc suffix), (index, eid, suffix))
        \<in> measure (\<lambda>(index, eid, suffix).
         card {k. suffix \<le> k \<and> index_has index (eid @ ''-'' @ show_nat k)})"
    by simp
qed

declare collision_suffix.simps [simp del]

text \<open>
  \<^verbatim>\<open>
  export async function createEngagement(params) {
    const datePrefix = new Date().toISOString().slice(0, 10);
    const slug = slugify(params.target);
    let id = `${datePrefix}-${slug}`;
    const index = await getIndex();
    if (index.some((e) => e.id === id)) {
      let suffix = 2;
      while (index.some((e) => e.id === `${id}-${suffix}`)) { suffix++; }
      id = `${id}-${suffix}`;
    }
    ... ensureDir ...
    const meta = makeEmptyMetadata(id, params.target, params.scope, params.rules_of_engagement || "");
    await writeJSON(getMetadataPath(id), meta);
    await updateIndexEntry(buildIndexEntry(meta));
    await setActiveEngagement(id);
    ... render ...
    return meta;
  }
  \<close>
  \<open>datePrefix\<close> and \<open>ts\<close> are the two readings of the clock.
\<close>

definition new_engagement_id :: "IndexEntry list \<Rightarrow> string \<Rightarrow> string \<Rightarrow> string" where
  "new_engagement_id index datePrefix target =
     (let eid = candidate_id datePrefix target
      in if index_has index eid
         then eid @ ''-'' @ show_nat (collision_suffix index eid 2)
         else eid)"

definition createEngagement ::
  "string \<Rightarrow> string list \<Rightarrow> string option \<Rightarrow> string \<Rightarrow> string \<Rightarrow> store
     \<Rightarrow> EngagementMetadata \<times> store" where
  "createEngagement target scope rules_of_engagement datePrefix ts s =
     (let eid = new_engagement_id (getIndex s) datePrefix target;
          meta = makeEmptyMetadata eid target scope (or_else rules_of_engagement []) ts;
          s1 = writeMetadata eid meta s;
          s2 = updateIndexEntry (buildIndexEntry meta) s1;
          s3 = setActiveEngagement eid s2
      in (meta, s3))"

text \<open>
  \<^verbatim>\<open>resumeEngagement\<close>: \<^verbatim>\<open>EngagementNotFound\<close> when \<^verbatim>\<open>metadata.json\<close> is
  absent; otherwise the id becomes the active one and the count of pending todos is
  returned with the record.
\<close>

definition resumeEngagement :: "string \<Rightarrow> store \<Rightarrow> (error + EngagementMetadata \<times> nat) \<times> store" where
  "resumeEngagement eid s =
     (case metadata_json s eid of
        None \<Rightarrow> (Inl EngagementNotFound, s)
      | Some meta \<Rightarrow>
          (Inr (meta, length (filter (\<lambda>t. t_status t = Pending) (m_todos meta))),
           setActiveEngagement eid s))"

text \<open>
  \<^verbatim>\<open>
  export async function closeEngagement(params) {
    const id = await requireActiveEngagement();
    const metaPath = getMetadataPath(id);
    const meta = await readJSON(metaPath, null);
    meta.status = params.status || "completed";
    meta.updated_at = now();
    if (params.executive_summary) { meta.executive_summary = params.executive_summary; }
    await writeJSON(metaPath, meta);
    await updateIndexEntry(buildIndexEntry(meta));
    await clearActiveEngagement();
    ... render ...
    return { id: meta.id, status: meta.status };
  }
  \<close>
\<close>

definition closeEngagement ::
  "engagement_status option \<Rightarrow> string option \<Rightarrow> string \<Rightarrow> store
     \<Rightarrow> (error + string \<times> engagement_status) \<times> store" where
  "closeEngagement status executive_summary ts s =
     (case requireActiveEngagement s of
        Inl e \<Rightarrow> (Inl e, s)
      | Inr eid \<Rightarrow>
          (case metadata_json s eid of
             None \<Rightarrow> (Inl TypeErrorNull, s)
           | Some meta0 \<Rightarrow>
               (let meta1 = meta0\<lparr>m_status := (case status of None \<Rightarrow> Completed | Some v \<Rightarrow> v),
                                    m_updated_at := ts\<rparr>;
                    meta = (case executive_summary of
                              None \<Rightarrow> meta1
                            | Some v \<Rightarrow> if v = [] then meta1 else meta1\<lparr>m_executive_summary := v\<rparr>);
                    s1 = writeMetadata eid meta s;
                    s2 = updateIndexEntry (buildIndexEntry meta) s1;
                    s3 = clearActiveEngagement s2
                in (Inr (m_id meta, m_status meta), s3))))"

text \<open>
  \<^verbatim>\<open>engagementStatus\<close>: a read of the active record. The severity counts are
  built by \<^verbatim>\<open>by[f.severity] = (by[f.severity] || 0) + 1\<close>; the last five steps of
  the attack path are \<^verbatim>\<open>slice(-5)\<close>.
\<close>

record StatusSummary =
  st_id :: string
  st_target :: string
  st_status :: engagement_status
  st_findings_by_severity :: "severity \<Rightarrow> nat option"
  st_host_count :: nat
  st_credential_count :: nat
  st_evidence_count :: nat
  st_command_count :: nat
  st_open_todos :: nat
  st_recent_attack_path :: "(nat \<times> string) list"

definition count_severity :: "(severity \<Rightarrow> nat option) \<Rightarrow> Finding \<Rightarrow> (severity \<Rightarrow> nat option)" where
  "count_severity by f =
     by(f_severity f := Some ((case by (f_severity f) of None \<Rightarrow> 0 | Some n \<Rightarrow> n) + 1))"

definition engagementStatus :: "store \<Rightarrow> error + StatusSummary" where
  "engagementStatus s =
     (case requireActiveEngagement s of
        Inl e \<Rightarrow> Inl e
      | Inr eid \<Rightarrow>
          (case metadata_json s eid of
             None \<Rightarrow> Inl TypeErrorNull
           | Some meta \<Rightarrow>
               Inr \<lparr>st_id = m_id meta, st_target = m_target meta, st_status = m_status meta,
                    st_findings_by_severity = foldl count_severity (\<lambda>_. None) (m_findings meta),
                    st_host_count = length (m_hosts meta),
                    st_credential_count = length (m_credentials meta),
                    st_evidence_count = length (m_evidence_index meta),
                    st_command_count = length (m_command_log meta),
                    st_open_todos = length (filter (\<lambda>t. t_status t = Pending) (m_todos meta)),
                    st_recent_attack_path =
                      map (\<lambda>a. (a_step a, a_description a))
                        (drop (length (m_attack_path meta) - 5) (m_attack_path meta))\<rparr>))"

section \<open>Hosts (tools/hosts.ts)\<close>

text \<open>
  \<^verbatim>\<open>
  function mergeServices(existing: Service[], incoming: Service[]): Service[] {
    const merged = [...existing];
    for (const svc of incoming) {
      const match = merged.find((s) => s.port === svc.port && s.proto === svc.proto);
      if (match) {
        if (svc.service) match.service = svc.service;
        if (svc.version) match.version = svc.version;
        if (svc.notes) match.notes = svc.notes;
      } else {
        merged.push({ ...svc });
      }
    }
    return merged;
  }
  \<close>
  \<^verbatim>\<open>find\<close> returns the first match, which is then updated in place.
\<close>

definition same_endpoint :: "Service \<Rightarrow> Service \<Rightarrow> bool" where
  "same_endpoint svc s = (s_port s = s_port svc \<and> s_proto s = s_proto svc)"

definition overwrite_fields :: "Service \<Rightarrow> Service \<Rightarrow> Service" where
  "overwrite_fields match svc =
     (let m1 = (if s_service svc \<noteq> [] then match\<lparr>s_service := s_service svc\<rparr> else match);
          m2 = (if s_version svc \<noteq> [] then m1\<lparr>s_version := s_version svc\<rparr> else m1);
          m3 = (if s_notes svc \<noteq> [] then m2\<lparr>s_notes := s_notes svc\<rparr> else m2)
      in m3)"

definition merge_step :: "Service list \<Rightarrow> Service \<Rightarrow> Service list" where
  "merge_step merged svc =
     (case findIndex (same_endpoint svc) merged of
        Some i \<Rightarrow> merged[i := overwrite_fields (merged ! i) svc]
      | None \<Rightarrow> merged @ [svc])"

definition mergeServices :: "Service list \<Rightarrow> Service list \<Rightarrow> Service list" where
  "mergeServices existing incoming = foldl merge_step existing incoming"

text \<open>
  The conversion of a service parameter, the same in both branches of
  \<^verbatim>\<open>discoverHost\<close>:
  \<^verbatim>\<open>
    { port: s.port, proto: s.proto, service: s.service || "unknown",
      version: s.version || "", notes: s.notes || "" }
  \<close>
\<close>

definition to_service :: "ServiceData \<Rightarrow> Service" where
  "to_service sd =
     \<lparr>s_port = sd_port sd, s_proto = sd_proto sd,
      s_service = or_else (sd_service sd) ''unknown'',
      s_version = or_else (sd_version sd) [],
      s_notes = or_else (sd_notes sd) []\<rparr>"

record DiscoverParams =
  dp_ip :: string
  dp_hostname :: "string option"
  dp_os :: "string option"
  dp_services :: "ServiceData list option"

text \<open>
  The branch of \<^verbatim>\<open>discoverHost\<close> for a known host:
  \<^verbatim>\<open>
    if (params.hostname && !host.hostname) host.hostname = params.hostname;
    if (params.os && !host.os) host.os = params.os;
    if (params.services) {
      const incoming = params.services.map(...);
      host.services = mergeServices(host.services, incoming);
    }
    host.updated_at = now();
  \<close>
  An array, also the empty one, is truthy.
\<close>

definition merge_host :: "DiscoverParams \<Rightarrow> string \<Rightarrow> Host \<Rightarrow> Host" where
  "merge_host params ts host =
     (let h1 = (if truthy (dp_hostname params) \<and> h_hostname host = []
                then host\<lparr>h_hostname := or_else (dp_hostname params) []\<rparr> else host);
          h2 = (if truthy (dp_os params) \<and> h_os h1 = []
                then h1\<lparr>h_os := or_else (dp_os params) []\<rparr> else h1);
          h3 = (case dp_services params of
                  None \<Rightarrow> h2
                | Some svcs \<Rightarrow> h2\<lparr>h_services := mergeServices (h_services h2) (map to_service svcs)\<rparr>)
      in h3\<lparr>h_updated_at := ts\<rparr>)"

text \<open>The branch for an unknown host; the two timestamps are two readings of the clock.\<close>

definition new_host :: "DiscoverParams \<Rightarrow> string \<Rightarrow> string \<Rightarrow> Host" where
  "new_host params ts_first ts_updated =
     \<lparr>h_ip = dp_ip params,
      h_hostname = or_else (dp_hostname params) [],
      h_os = or_else (dp_os params) [],
      h_first_seen = ts_first,
      h_updated_at = ts_updated,
      h_services = map to_service (case dp_services params of None \<Rightarrow> [] | Some svcs \<Rightarrow> svcs),
      h_enumeration = [], h_vulnerabilities = [], h_exploitation = [],
      h_post_exploitation = [], h_credentials = [], h_key_commands = []\<rparr>"

text \<open>
  \<^verbatim>\<open>discoverHost\<close>: load the active record, merge into the first host with this
  ip or push a new host, then commit through \<^verbatim>\<open>saveMetadataAndRender\<close>. The
  arguments \<open>ts1\<close>, \<open>ts2\<close> are the readings of the clock inside the branch,
  \<open>ts_save\<close> the one of the save path.
\<close>

definition discoverHost ::
  "DiscoverParams \<Rightarrow> string \<Rightarrow> string \<Rightarrow> string \<Rightarrow> store \<Rightarrow> (error + Host) \<times> store" where
  "discoverHost params ts1 ts2 ts_save s =
     (case loadActiveMetadata s of
        Inl e \<Rightarrow> (Inl e, s)
      | Inr meta \<Rightarrow>
          (case findIndex (\<lambda>h. h_ip h = dp_ip params) (m_hosts meta) of
             Some i \<Rightarrow>
               (let host = merge_host params ts1 (m_hosts meta ! i);
                    meta' = meta\<lparr>m_hosts := (m_hosts meta)[i := host]\<rparr>
                in (Inr host, saveMetadataAndRender ts_save meta' s))
           | None \<Rightarrow>
               (let host = new_host params ts1 ts2;
                    meta' = meta\<lparr>m_hosts := m_hosts meta @ [host]\<rparr>
                in (Inr host, saveMetadataAndRender ts_save meta' s))))"

section \<open>Findings (tools/findings.ts)\<close>

text \<open>
  \<^verbatim>\<open>
  function nextFindingId(existing: Finding[]): string {
    let max = 0;
    for (const f of existing) {
      const n = parseInt(f.id.replace("F-", ""), 10);
      if (n > max) max = n;
    }
    return `F-${String(max + 1).padStart(3, "0")}`;
  }
  \<close>
\<close>

definition max_step :: "int \<Rightarrow> Finding \<Rightarrow> int" where
  "max_step mx f =
     (case parseInt10 (replace_first ''F-'' [] (f_id f)) of
        None \<Rightarrow> mx
      | Some n \<Rightarrow> if n > mx then n else mx)"

definition nextFindingId :: "Finding list \<Rightarrow> string" where
  "nextFindingId existing = ''F-'' @ padStart3 (show_int (foldl max_step 0 existing + 1))"

text \<open>\<^verbatim>\<open>params.cvss < 0 || params.cvss > 10\<close>, for a supplied score.\<close>

definition cvss_out_of_range :: "rat \<Rightarrow> bool" where
  "cvss_out_of_range c = (c < 0 \<or> c > 10)"

record AddFindingParams =
  af_host :: string
  af_vulnerability :: string
  af_severity :: severity
  af_cvss :: "rat option"
  af_status :: "finding_status option"
  af_evidence_file :: "string option"
  af_notes :: "string option"

text \<open>
  \<^verbatim>\<open>
  export async function addFinding(params) {
    const meta = await loadActiveMetadata();
    const id = nextFindingId(meta.findings);
    if (params.cvss !== undefined && (params.cvss < 0 || params.cvss > 10)) {
      throw ... { code: "invalid_cvss" };
    }
    const finding = { id, host: params.host, vulnerability: params.vulnerability,
      severity: params.severity, cvss: params.cvss ?? null,
      status: params.status || "confirmed", evidence_file: params.evidence_file || null,
      notes: params.notes || "", created_at: now(), updated_at: now() };
    meta.findings.push(finding);
    await saveMetadataAndRender(meta);
    return finding;
  }
  \<close>
\<close>

definition addFinding ::
  "AddFindingParams \<Rightarrow> string \<Rightarrow> string \<Rightarrow> string \<Rightarrow> store \<Rightarrow> (error + Finding) \<times> store" where
  "addFinding params ts1 ts2 ts_save s =
     (case loadActiveMetadata s of
        Inl e \<Rightarrow> (Inl e, s)
      | Inr meta \<Rightarrow>
          (let fid = nextFindingId (m_findings meta)
           in if (case af_cvss params of None \<Rightarrow> False | Some c \<Rightarrow> cvss_out_of_range c)
              then (Inl InvalidCvss, s)
              else
                (let finding =
                       \<lparr>f_id = fid, f_host = af_host params,
                        f_vulnerability = af_vulnerability params,
                        f_severity = af_severity params, f_cvss = af_cvss params,
                        f_status = (case af_status params of None \<Rightarrow> Confirmed | Some v \<Rightarrow> v),
                        f_evidence_file = or_null (af_evidence_file params),
                        f_notes = or_else (af_notes params) [],
                        f_created_at = ts1, f_updated_at = ts2\<rparr>;
                     meta' = meta\<lparr>m_findings := m_findings meta @ [finding]\<rparr>
                 in (Inr finding, saveMetadataAndRender ts_save meta' s))))"

record UpdateFindingParams =
  uf_id :: string
  uf_severity :: "severity option"
  uf_cvss :: "rat option"
  uf_status :: "finding_status option"
  uf_evidence_file :: "string option"
  uf_notes :: "string option"

text \<open>
  The field updates of \<^verbatim>\<open>updateFinding\<close>, in the order of the source: the
  severity is assigned before the CVSS check, on the copy in memory.
  \<^verbatim>\<open>
    if (params.severity) finding.severity = params.severity;
    if (params.cvss !== undefined) {
      if (params.cvss < 0 || params.cvss > 10) { throw ... { code: "invalid_cvss" }; }
      finding.cvss = params.cvss;
    }
    if (params.status) finding.status = params.status;
    if (params.evidence_file) finding.evidence_file = params.evidence_file;
    if (params.notes) {
      finding.notes = finding.notes ? `${finding.notes}\n\n${params.notes}` : params.notes;
    }
    finding.updated_at = now();
  \<close>
\<close>

definition apply_update :: "UpdateFindingParams \<Rightarrow> string \<Rightarrow> Finding \<Rightarrow> error + Finding" where
  "apply_update params ts f0 =
     (let f1 = (case uf_severity params of None \<Rightarrow> f0 | Some v \<Rightarrow> f0\<lparr>f_severity := v\<rparr>)
      in case (case uf_cvss params of
                 None \<Rightarrow> Inr f1
               | Some c \<Rightarrow> if cvss_out_of_range c then Inl InvalidCvss else Inr (f1\<lparr>f_cvss := Some c\<rparr>)) of
           Inl e \<Rightarrow> Inl e
         | Inr f2 \<Rightarrow>
             (let f3 = (case uf_status params of None \<Rightarrow> f2 | Some v \<Rightarrow> f2\<lparr>f_status := v\<rparr>);
                  f4 = (if truthy (uf_evidence_file params)
                        then f3\<lparr>f_evidence_file := uf_evidence_file params\<rparr> else f3);
                  f5 = (if truthy (uf_notes params)
                        then f4\<lparr>f_notes := (if f_notes f4 \<noteq> []
                                              then f_notes f4 @ [CHR 0x0A, CHR 0x0A] @ or_else (uf_notes params) []
                                              else or_else (uf_notes params) [])\<rparr>
                        else f4)
              in Inr (f5\<lparr>f_updated_at := ts\<rparr>)))"

text \<open>
  \<^verbatim>\<open>updateFinding\<close>: \<^verbatim>\<open>finding_not_found\<close> when no finding has the id; the
  first one that has it is updated in place and the record is committed.
\<close>

definition updateFinding ::
  "UpdateFindingParams \<Rightarrow> string \<Rightarrow> string \<Rightarrow> store \<Rightarrow> (error + Finding) \<times> store" where
  "updateFinding params ts ts_save s =
     (case loadActiveMetadata s of
        Inl e \<Rightarrow> (Inl e, s)
      | Inr meta \<Rightarrow>
          (case findIndex (\<lambda>f. f_id f = uf_id params) (m_findings meta) of
             None \<Rightarrow> (Inl FindingNotFound, s)
           | Some i \<Rightarrow>
               (case apply_update params ts (m_findings meta ! i) of
                  Inl e \<Rightarrow> (Inl e, s)
                | Inr finding \<Rightarrow>
                    (let meta' = meta\<lparr>m_findings := (m_findings meta)[i := finding]\<rparr>
                     in (Inr finding, saveMetadataAndRender ts_save meta' s)))))"

section \<open>Evidence (tools/evidence.ts)\<close>

record SaveEvidenceParams =
  se_filename :: string
  se_content :: string
  se_description :: "string option"
  se_related_finding_id :: "string option"

text \<open>\<^verbatim>\<open>params.filename.includes("/") || params.filename.includes("\\")\<close>.\<close>

definition has_path_separator :: "string \<Rightarrow> bool" where
  "has_path_separator filename = (CHR ''/'' \<in> set filename \<or> CHR 0x5C \<in> set filename)"

text \<open>
  \<^verbatim>\<open>
  export async function saveEvidence(params) {
    if (params.filename.includes("/") || params.filename.includes("\\")) {
      throw ... { code: "invalid_filename" };
    }
    const meta = await loadActiveMetadata();
    const engDir = getEngagementDir(meta.id);
    ...
    let overwritten = false;
    try { await fs.access(filePath); overwritten = true; } catch { }
    await writeFileAtomic(filePath, params.content);
    const existingIdx = meta.evidence_index.findIndex((e) => e.filename === params.filename);
    const entry = { filename: params.filename,
      description: params.description || params.filename,
      related_finding_id: params.related_finding_id || null, created_at: now() };
    if (existingIdx >= 0) { meta.evidence_index[existingIdx] = entry; }
    else { meta.evidence_index.push(entry); }
    await saveMetadataAndRender(meta);
    return { entry, overwritten };
  }
  \<close>
  The evidence directory is the one of \<^verbatim>\<open>meta.id\<close>.
\<close>

text \<open>
  The path is \<^verbatim>\<open>path.join(evidenceDir, params.filename)\<close>. For the empty name
  and for \<^verbatim>\<open>.\<close> it is the evidence directory itself, for \<^verbatim>\<open>..\<close> the
  engagement directory; every other name without a separator names an entry of the
  evidence directory.
\<close>

definition names_directory :: "string \<Rightarrow> bool" where
  "names_directory filename = (filename = [] \<or> filename = ''.'' \<or> filename = ''..'')"

definition has_nul :: "string \<Rightarrow> bool" where
  "has_nul filename = (CHR 0x00 \<in> set filename)"

text \<open>
  \<^verbatim>\<open>try { await fs.access(filePath); overwritten = true; } catch { }\<close>: the
  call rejects a path with a NUL character, succeeds on a directory, and otherwise
  succeeds when the file exists.
\<close>

definition access_ok :: "store \<Rightarrow> string \<Rightarrow> string \<Rightarrow> bool" where
  "access_ok s eid filename =
     (if has_nul filename then False
      else if names_directory filename then True
      else evidence_dir s eid filename \<noteq> None)"

text \<open>The store after a file of the evidence directory is written.\<close>

definition writeEvidenceFile :: "string \<Rightarrow> string \<Rightarrow> string \<Rightarrow> store \<Rightarrow> store" where
  "writeEvidenceFile eid filename content s =
     s\<lparr>evidence_dir := (evidence_dir s)(eid := (evidence_dir s eid)(filename := Some content))\<rparr>"

text \<open>
  \<^verbatim>\<open>writeFileAtomic(filePath, content)\<close> on that path:
  \<^verbatim>\<open>
    const tmpPath = `${filePath}.tmp.${process.pid}`;
    await fs.writeFile(tmpPath, content, "utf-8");
    await fs.rename(tmpPath, filePath);
  \<close>
  \<^verbatim>\<open>fs.writeFile\<close> rejects a path with a NUL character; \<^verbatim>\<open>fs.rename\<close> of the
  temporary file onto a directory fails; otherwise the file holds the content.
  The temporary file is named after the path and the process id; a clash of that
  name with a stored evidence file depends on the process and is not modelled.
\<close>

definition writeFileAtomic :: "string \<Rightarrow> string \<Rightarrow> string \<Rightarrow> store \<Rightarrow> error + store" where
  "writeFileAtomic eid filename content s =
     (if has_nul filename then Inl ERR_INVALID_ARG_VALUE
      else if names_directory filename then Inl EISDIR
      else Inr (writeEvidenceFile eid filename content s))"

definition saveEvidence ::
  "SaveEvidenceParams \<Rightarrow> string \<Rightarrow> string \<Rightarrow> store \<Rightarrow> (error + EvidenceEntry \<times> bool) \<times> store" where
  "saveEvidence params ts ts_save s =
     (if has_path_separator (se_filename params) then (Inl InvalidFilename, s)
      else
        (case loadActiveMetadata s of
           Inl e \<Rightarrow> (Inl e, s)
         | Inr meta \<Rightarrow>
             (let overwritten = access_ok s (m_id meta) (se_filename params)
              in case writeFileAtomic (m_id meta) (se_filename params) (se_content params) s of
                   Inl e \<Rightarrow> (Inl e, s)
                 | Inr s1 \<Rightarrow>
                     (let entry = \<lparr>e_filename = se_filename params,
                                    e_description = or_else (se_description params) (se_filename params),
                                    e_related_finding_id = or_null (se_related_finding_id params),
                                    e_created_at = ts\<rparr>;
                          meta' = (case findIndex (\<lambda>e. e_filename e = se_filename params)
                                          (m_evidence_index meta) of
                                     Some existingIdx \<Rightarrow>
                                       meta\<lparr>m_evidence_index :=
                                              (m_evidence_index meta)[existingIdx := entry]\<rparr>
                                   | None \<Rightarrow>
                                       meta\<lparr>m_evidence_index := m_evidence_index meta @ [entry]\<rparr>)
                      in (Inr (entry, overwritten), saveMetadataAndRender ts_save meta' s1)))))"

section \<open>Sequences of calls and well-formed stores\<close>

text \<open>
  The record every tool works on: the one stored under the active id. The
  operations write a record under its own \<^verbatim>\<open>id\<close> field, and
  \<^verbatim>\<open>createEngagement\<close> stores each record under that id, so in the stores the
  program produces the two agree; \<open>active_record\<close> is \<open>None\<close> otherwise.
\<close>

definition active_record :: "store \<Rightarrow> EngagementMetadata option" where
  "active_record s =
     (case current_engagement_id s of
        None \<Rightarrow> None
      | Some eid \<Rightarrow>
          if eid = [] then None
          else (case metadata_json s eid of
                  None \<Rightarrow> None
                | Some meta \<Rightarrow> if m_id meta = eid then Some meta else None))"

text \<open>The id format \<^verbatim>\<open>F-NNN\<close> for the number \<open>n\<close>.\<close>

definition finding_id :: "nat \<Rightarrow> string" where
  "finding_id n = ''F-'' @ padStart3 (show_nat n)"

text \<open>
  A sequence of \<^verbatim>\<open>finding_add\<close> and \<^verbatim>\<open>finding_update\<close> calls, each with the
  clock readings it makes. \<open>run_findings\<close> performs them in order and returns
  the ids of the findings returned by the successful adds; a call that throws
  leaves the store as it was.
\<close>

datatype finding_call =
    Add AddFindingParams string string string
  | Update UpdateFindingParams string string

fun run_findings :: "finding_call list \<Rightarrow> store \<Rightarrow> string list \<times> store" where
  "run_findings [] s = ([], s)"
| "run_findings (Add params ts1 ts2 ts_save # calls) s =
     (case addFinding params ts1 ts2 ts_save s of
        (Inl e, s') \<Rightarrow> run_findings calls s'
      | (Inr f, s') \<Rightarrow> (case run_findings calls s' of (ids, s'') \<Rightarrow> (f_id f # ids, s'')))"
| "run_findings (Update params ts ts_save # calls) s =
     run_findings calls (snd (updateFinding params ts ts_save s))"

text \<open>The adds of a sequence that pass the CVSS check.\<close>

fun accepted_add :: "finding_call \<Rightarrow> bool" where
  "accepted_add (Add params ts1 ts2 ts_save) =
     (case af_cvss params of None \<Rightarrow> True | Some c \<Rightarrow> \<not> cvss_out_of_range c)"
| "accepted_add (Update params ts ts_save) = False"

text \<open>The key of a service within a host.\<close>

definition endpoint :: "Service \<Rightarrow> int \<times> proto" where
  "endpoint sv = (s_port sv, s_proto sv)"

text \<open>
  The index entry of an engagement is the first entry of \<^verbatim>\<open>index.json\<close> with its
  id. It agrees with the stored record when its id, target, status and timestamps
  are the record's and its four counts are the lengths of the record's findings,
  hosts, credentials and command log.
\<close>

definition index_consistent :: "store \<Rightarrow> string \<Rightarrow> bool" where
  "index_consistent s eid =
     (case metadata_json s eid of
        None \<Rightarrow> False
      | Some rec \<Rightarrow>
          (case find (\<lambda>e. i_id e = eid) (index_json s) of
             None \<Rightarrow> False
           | Some e \<Rightarrow>
               i_id e = m_id rec \<and> i_target e = m_target rec \<and> i_status e = m_status rec
               \<and> i_created_at e = m_created_at rec \<and> i_updated_at e = m_updated_at rec
               \<and> i_finding_count e = length (m_findings rec)
               \<and> i_host_count e = length (m_hosts rec)
               \<and> i_credential_count e = length (m_credentials rec)
               \<and> i_command_count e = length (m_command_log rec)))"

text \<open>
  The update of the evidence index in \<^verbatim>\<open>saveEvidence\<close>, as a function of the
  list: the first entry with the file name is replaced, or the entry is pushed.
\<close>

definition upsert_evidence :: "EvidenceEntry \<Rightarrow> EvidenceEntry list \<Rightarrow> EvidenceEntry list" where
  "upsert_evidence entry idx =
     (case findIndex (\<lambda>e. e_filename e = e_filename entry) idx of
        Some i \<Rightarrow> idx[i := entry]
      | None \<Rightarrow> idx @ [entry])"

section \<open>A worked store\<close>

text \<open>
  The store of the repository's integration test: an empty data directory, then
  \<^verbatim>\<open>createEngagement({ target: "Test Corp", scope: ["10.0.0.0/24"] })\<close>.
\<close>

definition empty_store :: store where
  "empty_store =
     \<lparr>current_engagement_id = None, index_json = [],
      metadata_json = (\<lambda>_. None), evidence_dir = (\<lambda>_ _. None)\<rparr>"

definition test_corp_store :: store where
  "test_corp_store =
     snd (createEngagement ''Test Corp'' [''10.0.0.0/24''] None ''2026-01-01'' ''t0'' empty_store)"

definition test_corp_meta :: EngagementMetadata where
  "test_corp_meta =
     makeEmptyMetadata ''2026-01-01-test-corp'' ''Test Corp'' [''10.0.0.0/24''] [] ''t0''"

text \<open>
  The two \<^verbatim>\<open>host_discover\<close> calls of the test "merges services additively on
  re-discover": the first reports ssh on 22/tcp with its name and version, the
  second reports the same port with a new version and no service name.
\<close>

definition ssh_first :: DiscoverParams where
  "ssh_first =
     \<lparr>dp_ip = ''10.0.0.1'', dp_hostname = Some ''gateway.test.corp'', dp_os = Some ''Linux 5.x'',
      dp_services = Some [\<lparr>sd_port = 22, sd_proto = Tcp, sd_service = Some ''ssh'',
                           sd_version = Some ''OpenSSH 8.9'', sd_notes = None\<rparr>]\<rparr>"

definition ssh_again :: DiscoverParams where
  "ssh_again =
     \<lparr>dp_ip = ''10.0.0.1'', dp_hostname = None, dp_os = None,
      dp_services = Some [\<lparr>sd_port = 22, sd_proto = Tcp, sd_service = None,
                           sd_version = Some ''OpenSSH 9.0'', sd_notes = None\<rparr>]\<rparr>"

definition ssh_store :: store where
  "ssh_store = snd (discoverHost ssh_first ''t1'' ''t1'' ''t2'' test_corp_store)"

definition ssh_meta :: EngagementMetadata where
  "ssh_meta =
     test_corp_meta\<lparr>m_updated_at := ''t2'', m_hosts :=
       [\<lparr>h_ip = ''10.0.0.1'', h_hostname = ''gateway.test.corp'', h_os = ''Linux 5.x'',
         h_first_seen = ''t1'', h_updated_at = ''t1'',
         h_services = [\<lparr>s_port = 22, s_proto = Tcp, s_service = ''ssh'',
                         s_version = ''OpenSSH 8.9'', s_notes = []\<rparr>],
         h_enumeration = [], h_vulnerabilities = [], h_exploitation = [],
         h_post_exploitation = [], h_credentials = [], h_key_commands = []\<rparr>]\<rparr>"

text \<open>A first discovery that lists the same port twice, and a re-discovery with no services.\<close>

definition http_twice :: DiscoverParams where
  "http_twice =
     \<lparr>dp_ip = ''10.0.0.2'', dp_hostname = None, dp_os = None,
      dp_services = Some [\<lparr>sd_port = 80, sd_proto = Tcp, sd_service = Some ''http'',
                           sd_version = None, sd_notes = None\<rparr>,
                         \<lparr>sd_port = 80, sd_proto = Tcp, sd_service = Some ''http'',
                           sd_version = None, sd_notes = None\<rparr>]\<rparr>"

definition http_again :: DiscoverParams where
  "http_again = \<lparr>dp_ip = ''10.0.0.2'', dp_hostname = None, dp_os = None, dp_services = None\<rparr>"

definition http_store :: store where
  "http_store = snd (discoverHost http_twice ''t1'' ''t1'' ''t2'' test_corp_store)"

text \<open>The first \<^verbatim>\<open>finding_add\<close> of the test scenario, with CVSS 9.8.\<close>

definition sqli_finding :: AddFindingParams where
  "sqli_finding =
     \<lparr>af_host = ''10.0.0.1'', af_vulnerability = ''SQL injection'', af_severity = Critical,
      af_cvss = Some (98 / 10), af_status = None, af_evidence_file = None, af_notes = None\<rparr>"

text \<open>
  The same call with another CVSS score, an update of \<^verbatim>\<open>F-001\<close> that sets the
  severity and a CVSS score, and the store and record after the first add.
\<close>

definition cvss_call :: "rat option \<Rightarrow> AddFindingParams" where
  "cvss_call c = sqli_finding\<lparr>af_cvss := c\<rparr>"

definition cvss_update :: "rat option \<Rightarrow> UpdateFindingParams" where
  "cvss_update c =
     \<lparr>uf_id = ''F-001'', uf_severity = Some High, uf_cvss = c, uf_status = None,
      uf_evidence_file = None, uf_notes = None\<rparr>"

definition sqli_store :: store where
  "sqli_store = snd (addFinding sqli_finding ''t1'' ''t1'' ''t2'' test_corp_store)"

definition sqli_meta :: EngagementMetadata where
  "sqli_meta =
     test_corp_meta\<lparr>m_updated_at := ''t2'', m_findings :=
       [\<lparr>f_id = ''F-001'', f_host = ''10.0.0.1'', f_vulnerability = ''SQL injection'',
         f_severity = Critical, f_cvss = Some (98 / 10), f_status = Confirmed,
         f_evidence_file = None, f_notes = [], f_created_at = ''t1'', f_updated_at = ''t1''\<rparr>]\<rparr>"

text \<open>
  The \<^verbatim>\<open>evidence_save\<close> calls of the spec's scenario, a save under the
  name \<^verbatim>\<open>..\<close>, a save under a name with a NUL character, and the call of the
  test "rejects filenames with path separators".
\<close>

definition proof_v1 :: SaveEvidenceParams where
  "proof_v1 = \<lparr>se_filename = ''a.txt'', se_content = ''v1'', se_description = None,
     se_related_finding_id = None\<rparr>"

definition proof_v2 :: SaveEvidenceParams where
  "proof_v2 = \<lparr>se_filename = ''a.txt'', se_content = ''v2'', se_description = None,
     se_related_finding_id = None\<rparr>"

definition dotdot_evidence :: SaveEvidenceParams where
  "dotdot_evidence =
     \<lparr>se_filename = ''..'', se_content = ''v1'', se_description = None,
      se_related_finding_id = None\<rparr>"

definition nul_evidence :: SaveEvidenceParams where
  "nul_evidence =
     \<lparr>se_filename = [CHR ''a'', CHR 0x00], se_content = ''v1'', se_description = None,
      se_related_finding_id = None\<rparr>"

definition evil_evidence :: SaveEvidenceParams where
  "evil_evidence =
     \<lparr>se_filename = ''../evil.txt'', se_content = ''test'', se_description = None,
      se_related_finding_id = None\<rparr>"

text \<open>
  The finding calls of the spec's scenario, with a rejected add (CVSS 15, as in the
  test "rejects invalid CVSS") between them: an add, a note on \<^verbatim>\<open>F-001\<close>, a
  second add, the rejected add, another note and a third add.
\<close>

definition note_update :: "string \<Rightarrow> UpdateFindingParams" where
  "note_update n =
     \<lparr>uf_id = ''F-001'', uf_severity = None, uf_cvss = None, uf_status = None,
      uf_evidence_file = None, uf_notes = Some n\<rparr>"

definition scenario_calls :: "finding_call list" where
  "scenario_calls =
     [Add sqli_finding ''t1'' ''t1'' ''t2'',
      Update (note_update ''x'') ''t3'' ''t4'',
      Add (cvss_call None) ''t5'' ''t5'' ''t6'',
      Add (cvss_call (Some 15)) ''t7'' ''t7'' ''t8'',
      Update (note_update ''y'') ''t9'' ''t10'',
      Add (cvss_call (Some 0)) ''t11'' ''t11'' ''t12'']"

section \<open>Facts about the primitives\<close>

lemma findIndex_None_iff: "findIndex P xs = None \<longleftrightarrow> \<not> list_ex P xs"
  by (induction xs) auto

lemma findIndex_Some_props:
  "findIndex P xs = Some i \<Longrightarrow> i < length xs \<and> P (xs ! i) \<and> (\<forall>j<i. \<not> P (xs ! j))"
proof (induction xs arbitrary: i)
  case Nil
  then show ?case by simp
next
  case (Cons x xs)
  show ?case
  proof (cases "P x")
    case True
    with Cons.prems show ?thesis by simp
  next
    case False
    with Cons.prems obtain k where k: "findIndex P xs = Some k" "i = Suc k"
      by auto
    from Cons.IH [OF k(1)] False k(2) show ?thesis
      by (auto simp: nth_Cons split: nat.splits)
  qed
qed

lemma find_update_at_findIndex:
  "findIndex P xs = Some i \<Longrightarrow> P y \<Longrightarrow> find P (xs[i := y]) = Some y"
proof (induction xs arbitrary: i)
  case Nil
  then show ?case by simp
next
  case (Cons x xs)
  then show ?case
    by (cases "P x") auto
qed

lemma find_append_new:
  "findIndex P xs = None \<Longrightarrow> P y \<Longrightarrow> find P (xs @ [y]) = Some y"
  by (induction xs) (auto split: if_splits)

lemmas slug_defs = slugify_def toLowerCase_def lower_char_def is_lower_alnum_def
  strip_edge_hyphens_def candidate_id_def

lemma test_corp_id: "new_engagement_id [] ''2026-01-01'' ''Test Corp'' = ''2026-01-01-test-corp''"
  by (simp add: new_engagement_id_def slug_defs index_has_def)

lemma test_corp_store_eq:
  "test_corp_store =
     \<lparr>current_engagement_id = Some ''2026-01-01-test-corp'',
      index_json = [buildIndexEntry test_corp_meta],
      metadata_json = (\<lambda>_. None)(''2026-01-01-test-corp'' := Some test_corp_meta),
      evidence_dir = (\<lambda>_ _. None)\<rparr>"
  by (simp add: test_corp_store_def test_corp_meta_def empty_store_def createEngagement_def
      test_corp_id or_else_def getIndex_def writeMetadata_def updateIndexEntry_def
      setActiveEngagement_def Let_def)

lemma show_nat_2: "show_nat 2 = ''2''"
  by (simp add: show_nat.simps [of 2] digit_char_def)

lemma collision_suffix_first_free:
  "suffix \<le> collision_suffix index eid suffix
   \<and> \<not> index_has index (eid @ ''-'' @ show_nat (collision_suffix index eid suffix))
   \<and> (\<forall>j. suffix \<le> j \<and> j < collision_suffix index eid suffix
          \<longrightarrow> index_has index (eid @ ''-'' @ show_nat j))"
proof (induction index eid suffix rule: collision_suffix.induct)
  case (1 index eid suffix)
  show ?case
  proof (cases "index_has index (eid @ ''-'' @ show_nat suffix)")
    case True
    then have eq: "collision_suffix index eid suffix = collision_suffix index eid (Suc suffix)"
      by (simp add: collision_suffix.simps [of index eid suffix])
    from 1 [OF True] have IH:
      "Suc suffix \<le> collision_suffix index eid (Suc suffix)"
      "\<not> index_has index (eid @ ''-'' @ show_nat (collision_suffix index eid (Suc suffix)))"
      "\<And>j. Suc suffix \<le> j \<Longrightarrow> j < collision_suffix index eid (Suc suffix)
          \<Longrightarrow> index_has index (eid @ ''-'' @ show_nat j)"
      by blast+
    have "index_has index (eid @ ''-'' @ show_nat j)"
      if "suffix \<le> j" "j < collision_suffix index eid (Suc suffix)" for j
    proof (cases "j = suffix")
      case True
      with \<open>index_has index (eid @ ''-'' @ show_nat suffix)\<close> show ?thesis by simp
    next
      case False
      with that have "Suc suffix \<le> j" by simp
      with that IH(3) show ?thesis by blast
    qed
    with IH(1,2) show ?thesis
      unfolding eq by auto
  next
    case False
    then have "collision_suffix index eid suffix = suffix"
      by (simp add: collision_suffix.simps [of index eid suffix])
    with False show ?thesis by auto
  qed
qed

lemma new_engagement_id_fresh: "\<not> index_has index (new_engagement_id index d t)"
  using collision_suffix_first_free [of 2 index "candidate_id d t"]
  by (simp add: new_engagement_id_def Let_def)

section \<open>Slugs\<close>

lemma hyphen_not_alnum: "\<not> is_lower_alnum CHR ''-''"
  by (simp add: is_lower_alnum_def)

lemma dropWhile_head_alnum:
  "dropWhile (\<lambda>d. \<not> is_lower_alnum d) cs = x # xs \<Longrightarrow> is_lower_alnum x"
  using hd_dropWhile [of "\<lambda>d. \<not> is_lower_alnum d" cs] by auto

lemma replace_runs_shape: "no_double_hyphen (replace_runs s) \<and> slug_chars (replace_runs s)"
proof (induction s rule: replace_runs.induct)
  case 1
  show ?case by (simp add: slug_chars_def)
next
  case (2 c cs)
  show ?case
  proof (cases "is_lower_alnum c")
    case True
    with 2 hyphen_not_alnum have "c \<noteq> CHR ''-''" by auto
    with 2 True show ?thesis
      by (cases "replace_runs cs") (simp_all add: slug_chars_def)
  next
    case False
    let ?r = "dropWhile (\<lambda>d. \<not> is_lower_alnum d) cs"
    from 2 False have IH: "no_double_hyphen (replace_runs ?r)" "slug_chars (replace_runs ?r)"
      by simp_all
    have "no_double_hyphen (CHR ''-'' # replace_runs ?r)"
    proof (cases ?r)
      case Nil
      show ?thesis unfolding Nil by simp
    next
      case (Cons x xs)
      then have x: "is_lower_alnum x" by (rule dropWhile_head_alnum)
      with hyphen_not_alnum have "x \<noteq> CHR ''-''" by auto
      with IH(1) x show ?thesis
        unfolding Cons by simp
    qed
    with IH(2) False show ?thesis
      by (simp add: slug_chars_def)
  qed
qed

lemma no_double_hyphen_tl: "no_double_hyphen s \<Longrightarrow> no_double_hyphen (tl s)"
  by (induction s rule: no_double_hyphen.induct) simp_all

lemma no_double_hyphen_take: "no_double_hyphen s \<Longrightarrow> no_double_hyphen (take n s)"
proof (induction s arbitrary: n rule: no_double_hyphen.induct)
  case (1 a b cs)
  show ?case
  proof (cases n)
    case 0
    then show ?thesis by simp
  next
    case (Suc m)
    show ?thesis
    proof (cases m)
      case 0
      with Suc show ?thesis by simp
    next
      case (Suc k)
      from 1 have "no_double_hyphen (take m (b # cs))" by simp
      with 1(2) Suc \<open>n = Suc m\<close> show ?thesis by simp
    qed
  qed
qed (simp_all add: take_Cons')

lemma no_double_hyphen_butlast: "no_double_hyphen s \<Longrightarrow> no_double_hyphen (butlast s)"
  by (simp add: butlast_conv_take no_double_hyphen_take)

lemma set_tl_subset: "set (tl s) \<subseteq> set s"
  by (cases s) auto

lemma slug_chars_sub:
  "slug_chars s \<Longrightarrow> slug_chars (tl s) \<and> slug_chars (butlast s) \<and> slug_chars (take n s)"
  unfolding slug_chars_def list_all_iff
  using set_tl_subset [of s] by (auto dest: in_set_butlastD in_set_takeD)

lemma strip_edge_hyphens_shape:
  assumes "no_double_hyphen s" and "slug_chars s"
  shows "no_double_hyphen (strip_edge_hyphens s) \<and> slug_chars (strip_edge_hyphens s)
         \<and> (strip_edge_hyphens s \<noteq> [] \<longrightarrow> hd (strip_edge_hyphens s) \<noteq> CHR ''-'')"
proof -
  let ?s1 = "(case s of [] \<Rightarrow> [] | c # cs \<Rightarrow> if c = CHR ''-'' then cs else s)"
  have s1: "no_double_hyphen ?s1 \<and> slug_chars ?s1 \<and> (?s1 \<noteq> [] \<longrightarrow> hd ?s1 \<noteq> CHR ''-'')"
  proof (cases s)
    case Nil
    then show ?thesis by (simp add: slug_chars_def)
  next
    case (Cons c cs)
    show ?thesis
    proof (cases "c = CHR ''-''")
      case True
      from assms(1) have "cs \<noteq> [] \<longrightarrow> hd cs \<noteq> CHR ''-''"
        unfolding Cons True by (cases cs) simp_all
      moreover from no_double_hyphen_tl [OF assms(1)] have "no_double_hyphen cs"
        by (simp add: Cons)
      moreover from slug_chars_sub [OF assms(2)] have "slug_chars cs"
        by (simp add: Cons)
      ultimately show ?thesis
        by (simp add: Cons True)
    next
      case False
      with assms show ?thesis
        by (simp add: Cons)
    qed
  qed
  have hd_butlast: "hd (butlast xs) = hd xs" if "butlast xs \<noteq> []" for xs :: string
    using that by (cases xs) auto
  show ?thesis
    using s1 no_double_hyphen_butlast [of ?s1] slug_chars_sub [of ?s1] hd_butlast [of ?s1]
    by (auto simp: strip_edge_hyphens_def Let_def)
qed

lemma slugify_shape:
  "length (slugify t) \<le> 40
   \<and> slug_chars (slugify t)
   \<and> no_double_hyphen (slugify t)
   \<and> (slugify t \<noteq> [] \<longrightarrow> hd (slugify t) \<noteq> CHR ''-'')"
proof -
  let ?r = "replace_runs (toLowerCase t)"
  let ?s = "strip_edge_hyphens ?r"
  from replace_runs_shape [of "toLowerCase t"]
  have s: "no_double_hyphen ?s" "slug_chars ?s" "?s \<noteq> [] \<longrightarrow> hd ?s \<noteq> CHR ''-''"
    using strip_edge_hyphens_shape [of ?r] by blast+
  have "hd (take 40 ?s) = hd ?s" if "take 40 ?s \<noteq> []"
    using that by (cases ?s) auto
  with s no_double_hyphen_take [OF s(1), of 40] slug_chars_sub [OF s(2), of 40]
  show ?thesis
    by (auto simp: slugify_def)
qed

text \<open>
  C5. The claim: the slug in the engagement id is lowercase, has at most 40
  characters, has each run of non-alphanumeric characters collapsed to one hyphen
  and has no leading or trailing hyphen. \<^verbatim>\<open>slugify\<close> removes the hyphens at the
  two ends first and cuts to 40 characters afterwards, so a cut that falls right
  after a hyphen leaves it at the end: for the target made of 39 letters
  \<^verbatim>\<open>a\<close>, a space and \<^verbatim>\<open>b\<close>, the slug is the 39 letters followed by a hyphen,
  and the candidate id ends in a hyphen. The other parts of the claim hold for
  every target, by \<open>slugify_shape\<close>.
\<close>

theorem slugify_truncation_leaves_hyphen:
  "slugify ''aaaaaaaaaaaaaaaaaaaaaaaaaaaaaaaaaaaaaaa b'' = ''aaaaaaaaaaaaaaaaaaaaaaaaaaaaaaaaaaaaaaa-''
   \<and> last (candidate_id ''2026-01-01'' ''aaaaaaaaaaaaaaaaaaaaaaaaaaaaaaaaaaaaaaa b'') = CHR ''-''"
  by (simp add: slug_defs)

section \<open>Engagement ids and collisions\<close>

lemma index_has_append: "index_has (index @ [e]) x \<longleftrightarrow> index_has index x \<or> i_id e = x"
  by (auto simp: index_has_def)

lemma findIndex_fresh: "\<not> index_has index x \<Longrightarrow> findIndex (\<lambda>e. i_id e = x) index = None"
  by (simp add: findIndex_None_iff index_has_def)

lemma createEngagement_id:
  "m_id (fst (createEngagement target scope roe d ts s)) = new_engagement_id (getIndex s) d target"
  by (simp add: createEngagement_def Let_def makeEmptyMetadata_def)

lemma createEngagement_index:
  "index_json (snd (createEngagement target scope roe d ts s))
     = getIndex s @ [buildIndexEntry (fst (createEngagement target scope roe d ts s))]"
proof -
  let ?eid = "new_engagement_id (getIndex s) d target"
  have "findIndex (\<lambda>e. i_id e = ?eid) (getIndex s) = None"
    by (rule findIndex_fresh) (rule new_engagement_id_fresh)
  then show ?thesis
    by (simp add: createEngagement_def Let_def updateIndexEntry_def getIndex_def
        writeMetadata_def setActiveEngagement_def buildIndexEntry_def makeEmptyMetadata_def)
qed

lemma createEngagement_metadata:
  "metadata_json (snd (createEngagement target scope roe d ts s))
     = (metadata_json s)(new_engagement_id (getIndex s) d target
          := Some (fst (createEngagement target scope roe d ts s)))"
proof -
  let ?eid = "new_engagement_id (getIndex s) d target"
  have "findIndex (\<lambda>e. i_id e = ?eid) (getIndex s) = None"
    by (rule findIndex_fresh) (rule new_engagement_id_fresh)
  then show ?thesis
    by (simp add: createEngagement_def Let_def updateIndexEntry_def getIndex_def
        writeMetadata_def setActiveEngagement_def buildIndexEntry_def makeEmptyMetadata_def)
qed

lemma createEngagement_active:
  "current_engagement_id (snd (createEngagement target scope roe d ts s))
     = Some (new_engagement_id (getIndex s) d target)"
  by (simp add: createEngagement_def Let_def updateIndexEntry_def getIndex_def
        writeMetadata_def setActiveEngagement_def split: option.splits)

lemma new_engagement_id_cases:
  "(\<not> index_has index (candidate_id d t) \<longrightarrow> new_engagement_id index d t = candidate_id d t)
   \<and> (index_has index (candidate_id d t) \<longrightarrow>
        (\<exists>k\<ge>2. new_engagement_id index d t = candidate_id d t @ ''-'' @ show_nat k
           \<and> (\<forall>j. 2 \<le> j \<and> j < k \<longrightarrow> index_has index (candidate_id d t @ ''-'' @ show_nat j))))"
  using collision_suffix_first_free [of 2 index "candidate_id d t"]
  by (auto simp: new_engagement_id_def Let_def)

lemma collision_suffix_free_now:
  "\<not> index_has index (eid @ ''-'' @ show_nat k) \<Longrightarrow> collision_suffix index eid k = k"
  by (simp add: collision_suffix.simps [of index eid k])

text \<open>
  C6. When the candidate id is already in the index, \<^verbatim>\<open>createEngagement\<close> appends
  the first unused numeric suffix \<^verbatim>\<open>-2\<close>, \<^verbatim>\<open>-3\<close>, ...: the new id is never an
  id of the index, it is the candidate when the candidate is free and otherwise
  the candidate with the least suffix from 2 on whose id is free; the index keeps
  all its entries and gains the new one, and the records of the engagements in
  the index are not touched. Two creations in a row with the same target and date
  always give two different ids, and when neither the candidate nor the candidate
  with \<^verbatim>\<open>-2\<close> was in the index before, the first gets the candidate and the
  second the candidate followed by \<^verbatim>\<open>-2\<close>.
\<close>

theorem createEngagement_collision_policy:
  fixes s :: store
  shows
  "(let index = getIndex s;
        cand = candidate_id d target;
        r1 = createEngagement target scope1 roe1 d ts1 s;
        r2 = createEngagement target scope2 roe2 d ts2 (snd r1)
    in \<not> index_has index (m_id (fst r1))
     \<and> (\<not> index_has index cand \<longrightarrow> m_id (fst r1) = cand)
     \<and> (index_has index cand \<longrightarrow>
          (\<exists>k\<ge>2. m_id (fst r1) = cand @ ''-'' @ show_nat k
             \<and> (\<forall>j. 2 \<le> j \<and> j < k \<longrightarrow> index_has index (cand @ ''-'' @ show_nat j))))
     \<and> index_json (snd r1) = index @ [buildIndexEntry (fst r1)]
     \<and> (\<forall>x. index_has index x \<longrightarrow> metadata_json (snd r1) x = metadata_json s x)
     \<and> m_id (fst r2) \<noteq> m_id (fst r1)
     \<and> (\<not> index_has index cand \<and> \<not> index_has index (cand @ ''-2'')
          \<longrightarrow> m_id (fst r1) = cand \<and> m_id (fst r2) = cand @ ''-2''))"
proof -
  let ?index = "getIndex s"
  let ?cand = "candidate_id d target"
  let ?r1 = "createEngagement target scope1 roe1 d ts1 s"
  let ?r2 = "createEngagement target scope2 roe2 d ts2 (snd ?r1)"
  let ?id1 = "new_engagement_id ?index d target"
  have id1: "m_id (fst ?r1) = ?id1"
    by (rule createEngagement_id)
  have index1: "getIndex (snd ?r1) = ?index @ [buildIndexEntry (fst ?r1)]"
    using createEngagement_index [of target scope1 roe1 d ts1 s] by (simp add: getIndex_def)
  have entry1: "i_id (buildIndexEntry (fst ?r1)) = ?id1"
    using id1 by (simp add: buildIndexEntry_def)
  have id2: "m_id (fst ?r2) = new_engagement_id (getIndex (snd ?r1)) d target"
    by (rule createEngagement_id)
  have fresh1: "\<not> index_has ?index ?id1"
    by (rule new_engagement_id_fresh)
  have fresh2: "\<not> index_has (getIndex (snd ?r1)) (m_id (fst ?r2))"
    unfolding id2 by (rule new_engagement_id_fresh)
  have distinct: "m_id (fst ?r2) \<noteq> m_id (fst ?r1)"
    using fresh2 unfolding index1 index_has_append entry1 id1 by auto
  have kept: "metadata_json (snd ?r1) x = metadata_json s x" if "index_has ?index x" for x
  proof -
    from that fresh1 have "x \<noteq> ?id1" by auto
    then show ?thesis
      by (simp add: createEngagement_metadata)
  qed
  have second: "m_id (fst ?r1) = ?cand \<and> m_id (fst ?r2) = ?cand @ ''-2''"
    if free: "\<not> index_has ?index ?cand" "\<not> index_has ?index (?cand @ ''-2'')"
  proof -
    from free(1) have a: "?id1 = ?cand"
      by (simp add: new_engagement_id_def)
    have taken: "index_has (getIndex (snd ?r1)) ?cand"
      unfolding index1 index_has_append entry1 a by simp
    have "\<not> index_has (getIndex (snd ?r1)) (?cand @ ''-'' @ show_nat 2)"
      unfolding index1 index_has_append entry1 a using free(2) by (simp add: show_nat_2)
    then have "collision_suffix (getIndex (snd ?r1)) ?cand 2 = 2"
      by (rule collision_suffix_free_now)
    with taken have "new_engagement_id (getIndex (snd ?r1)) d target = ?cand @ ''-2''"
      by (simp add: new_engagement_id_def show_nat_2)
    with a id1 id2 show ?thesis by simp
  qed
  show ?thesis
    unfolding Let_def
    using fresh1 id1 new_engagement_id_cases [of ?index d target]
      createEngagement_index [of target scope1 roe1 d ts1 s] kept distinct second
    by (intro conjI) (simp_all only: , blast+)
qed

theorem createEngagement_collision_policy_witness:
  "\<not> index_has (getIndex empty_store) (candidate_id ''2026-01-01'' ''Test Corp'')
   \<and> \<not> index_has (getIndex empty_store) (candidate_id ''2026-01-01'' ''Test Corp'' @ ''-2'')
   \<and> m_id (fst (createEngagement ''Test Corp'' [''10.0.0.0/24''] None ''2026-01-01'' ''t0'' empty_store))
       = ''2026-01-01-test-corp''
   \<and> m_id (fst (createEngagement ''Test Corp'' [''172.16.0.0/16''] None ''2026-01-01'' ''t1''
         (snd (createEngagement ''Test Corp'' [''10.0.0.0/24''] None ''2026-01-01'' ''t0'' empty_store))))
       = ''2026-01-01-test-corp-2''"
proof -
  have free: "\<not> index_has (getIndex empty_store) (candidate_id ''2026-01-01'' ''Test Corp'')"
    "\<not> index_has (getIndex empty_store) (candidate_id ''2026-01-01'' ''Test Corp'' @ ''-2'')"
    by (simp_all add: getIndex_def empty_store_def index_has_def)
  have cand: "candidate_id ''2026-01-01'' ''Test Corp'' = ''2026-01-01-test-corp''"
    by (simp add: slug_defs)
  from free createEngagement_collision_policy
    [of empty_store "''2026-01-01''" "''Test Corp''" "[''10.0.0.0/24'']" None "''t0''"
        "[''172.16.0.0/16'']" None "''t1''"]
  show ?thesis
    unfolding Let_def cand by simp
qed

section \<open>The store under the save path\<close>

lemmas storage_defs = getActiveEngagementId_def setActiveEngagement_def clearActiveEngagement_def
  requireActiveEngagement_def getIndex_def updateIndexEntry_def writeMetadata_def
  saveMetadataAndRender_def loadActiveMetadata_def buildIndexEntry_def makeEmptyMetadata_def

lemma loadActiveMetadata_active: "active_record s = Some meta \<Longrightarrow> loadActiveMetadata s = Inr meta"
  by (auto simp: active_record_def loadActiveMetadata_def requireActiveEngagement_def
      getActiveEngagementId_def split: option.splits if_splits)

lemma current_engagement_id_updateIndexEntry [simp]:
  "current_engagement_id (updateIndexEntry e s) = current_engagement_id s"
  by (simp add: updateIndexEntry_def Let_def split: option.splits)

lemma metadata_json_updateIndexEntry [simp]:
  "metadata_json (updateIndexEntry e s) = metadata_json s"
  by (simp add: updateIndexEntry_def Let_def split: option.splits)

lemma evidence_dir_updateIndexEntry [simp]:
  "evidence_dir (updateIndexEntry e s) = evidence_dir s"
  by (simp add: updateIndexEntry_def Let_def split: option.splits)

lemma active_record_save:
  "active_record s = Some meta \<Longrightarrow> m_id meta' = m_id meta
     \<Longrightarrow> active_record (saveMetadataAndRender ts meta' s) = Some (meta'\<lparr>m_updated_at := ts\<rparr>)"
  by (auto simp: active_record_def saveMetadataAndRender_def writeMetadata_def Let_def
      split: option.splits if_splits)

lemma test_corp_active: "active_record test_corp_store = Some test_corp_meta"
  by (simp add: active_record_def test_corp_store_eq test_corp_meta_def makeEmptyMetadata_def)

section \<open>Host re-discovery\<close>

lemma endpoint_overwrite_fields [simp]: "endpoint (overwrite_fields m svc) = endpoint m"
  by (simp add: overwrite_fields_def endpoint_def Let_def)

lemma same_endpoint_iff: "same_endpoint svc s \<longleftrightarrow> endpoint s = endpoint svc"
  by (auto simp: same_endpoint_def endpoint_def)

lemma map_endpoint_merge_step:
  "map endpoint (merge_step merged svc) =
     (if endpoint svc \<in> set (map endpoint merged) then map endpoint merged
      else map endpoint merged @ [endpoint svc])"
proof (cases "findIndex (same_endpoint svc) merged")
  case None
  then have "\<not> list_ex (same_endpoint svc) merged"
    by (simp add: findIndex_None_iff)
  then have "endpoint svc \<notin> set (map endpoint merged)"
    by (auto simp: list_ex_iff same_endpoint_iff)
  with None show ?thesis
    by (simp add: merge_step_def)
next
  case (Some i)
  from findIndex_Some_props [OF Some]
  have i: "i < length merged" "endpoint (merged ! i) = endpoint svc"
    by (simp_all add: same_endpoint_iff)
  then have "endpoint svc \<in> set (map endpoint merged)"
    by (metis image_eqI nth_mem set_map)
  moreover have "map endpoint (merged[i := overwrite_fields (merged ! i) svc]) = map endpoint merged"
    using i by (simp add: map_update list_update_same_conv)
  ultimately show ?thesis
    using Some by (simp add: merge_step_def)
qed

lemma length_merge_step: "length merged \<le> length (merge_step merged svc)"
  by (simp add: merge_step_def split: option.splits)

lemma length_mergeServices: "length existing \<le> length (mergeServices existing incoming)"
  unfolding mergeServices_def
proof (induction incoming arbitrary: existing)
  case Nil
  show ?case by simp
next
  case (Cons svc incoming)
  have "length existing \<le> length (merge_step existing svc)"
    by (rule length_merge_step)
  also have "\<dots> \<le> length (foldl merge_step (merge_step existing svc) incoming)"
    by (rule Cons.IH)
  finally show ?case by simp
qed

lemma distinct_merge_step:
  "distinct (map endpoint merged) \<Longrightarrow> distinct (map endpoint (merge_step merged svc))"
  by (simp add: map_endpoint_merge_step)

lemma distinct_mergeServices:
  "distinct (map endpoint existing) \<Longrightarrow> distinct (map endpoint (mergeServices existing incoming))"
  unfolding mergeServices_def
  by (induction incoming arbitrary: existing) (simp_all add: distinct_merge_step)

lemma set_endpoint_mergeServices:
  "set (map endpoint (mergeServices existing incoming))
     = set (map endpoint existing) \<union> set (map endpoint incoming)"
  unfolding mergeServices_def
proof (induction incoming arbitrary: existing)
  case Nil
  show ?case by simp
next
  case (Cons svc incoming)
  have "set (map endpoint (merge_step existing svc)) = insert (endpoint svc) (set (map endpoint existing))"
    by (auto simp: map_endpoint_merge_step)
  with Cons.IH [of "merge_step existing svc"] show ?case
    by auto
qed

lemma merge_host_services_length: "length (h_services host) \<le> length (h_services (merge_host params ts host))"
  by (simp add: merge_host_def Let_def length_mergeServices split: option.splits)

lemma merge_host_services_distinct:
  "distinct (map endpoint (h_services host))
     \<Longrightarrow> distinct (map endpoint (h_services (merge_host params ts host)))"
  by (simp add: merge_host_def Let_def distinct_mergeServices split: option.splits)

lemma merge_host_hostname:
  "h_hostname host \<noteq> [] \<or> \<not> truthy (dp_hostname params)
     \<Longrightarrow> h_hostname (merge_host params ts host) = h_hostname host"
  by (auto simp: merge_host_def Let_def split: option.splits)

lemma merge_host_os:
  "h_os host \<noteq> [] \<or> \<not> truthy (dp_os params)
     \<Longrightarrow> h_os (merge_host params ts host) = h_os host"
  by (auto simp: merge_host_def Let_def split: option.splits)

lemma discoverHost_known:
  assumes "active_record s = Some meta"
    and "findIndex (\<lambda>h. h_ip h = dp_ip params) (m_hosts meta) = Some i"
  shows "discoverHost params ts1 ts2 ts_save s =
           (Inr (merge_host params ts1 (m_hosts meta ! i)),
            saveMetadataAndRender ts_save
              (meta\<lparr>m_hosts := (m_hosts meta)[i := merge_host params ts1 (m_hosts meta ! i)]\<rparr>) s)"
  using assms by (simp add: discoverHost_def loadActiveMetadata_active Let_def)

lemma ssh_store_active: "active_record ssh_store = Some ssh_meta"
  by (simp add: active_record_def ssh_store_def ssh_meta_def test_corp_store_eq test_corp_meta_def
      ssh_first_def discoverHost_def new_host_def to_service_def or_else_def storage_defs Let_def)

text \<open>
  What a re-discovery does to the entry that matches an incoming service: the
  version and the notes are overwritten only by a non-empty value, the port and
  protocol stay, and the service name is always overwritten, by the name given or
  by \<^verbatim>\<open>unknown\<close>.
\<close>

lemma merged_fields_of_matching_service:
  "s_service (overwrite_fields m (to_service sd)) = or_else (sd_service sd) ''unknown''
   \<and> s_version (overwrite_fields m (to_service sd))
       = (if truthy (sd_version sd) then or_else (sd_version sd) [] else s_version m)
   \<and> s_notes (overwrite_fields m (to_service sd))
       = (if truthy (sd_notes sd) then or_else (sd_notes sd) [] else s_notes m)
   \<and> s_port (overwrite_fields m (to_service sd)) = s_port m
   \<and> s_proto (overwrite_fields m (to_service sd)) = s_proto m"
  by (simp add: overwrite_fields_def to_service_def or_else_def truthy_def Let_def
      split: option.splits)

text \<open>
  C1. The claim: on re-discovery of a known host, the service name, version and
  notes of a matching (port, protocol) entry are overwritten only by a non-empty
  incoming value and are unchanged when the caller omits the field.
  \<^verbatim>\<open>mergeServices\<close> guards each assignment so, but \<^verbatim>\<open>discoverHost\<close> first
  replaces an omitted service name by \<^verbatim>\<open>"unknown"\<close>, which is non-empty. In the
  repository's own test scenario the host has ssh on 22/tcp, named \<^verbatim>\<open>ssh\<close>; the
  second call reports 22/tcp with a new version and no service name, and the name
  stored and returned afterwards is \<^verbatim>\<open>unknown\<close>.
\<close>

theorem rediscovery_overwrites_service_name:
  "map (\<lambda>h. map s_service (h_services h)) (m_hosts ssh_meta) = [[''ssh'']]
   \<and> active_record ssh_store = Some ssh_meta
   \<and> fst (discoverHost ssh_again ''t3'' ''t3'' ''t4'' ssh_store) =
       Inr \<lparr>h_ip = ''10.0.0.1'', h_hostname = ''gateway.test.corp'', h_os = ''Linux 5.x'',
            h_first_seen = ''t1'', h_updated_at = ''t3'',
            h_services = [\<lparr>s_port = 22, s_proto = Tcp, s_service = ''unknown'',
                            s_version = ''OpenSSH 9.0'', s_notes = []\<rparr>],
            h_enumeration = [], h_vulnerabilities = [], h_exploitation = [],
            h_post_exploitation = [], h_credentials = [], h_key_commands = []\<rparr>"
proof (intro conjI)
  show "map (\<lambda>h. map s_service (h_services h)) (m_hosts ssh_meta) = [[''ssh'']]"
    by (simp add: ssh_meta_def)
  show "active_record ssh_store = Some ssh_meta"
    by (rule ssh_store_active)
  have known: "findIndex (\<lambda>h. h_ip h = dp_ip ssh_again) (m_hosts ssh_meta) = Some 0"
    by (simp add: ssh_meta_def ssh_again_def)
  show "fst (discoverHost ssh_again ''t3'' ''t3'' ''t4'' ssh_store) =
       Inr \<lparr>h_ip = ''10.0.0.1'', h_hostname = ''gateway.test.corp'', h_os = ''Linux 5.x'',
            h_first_seen = ''t1'', h_updated_at = ''t3'',
            h_services = [\<lparr>s_port = 22, s_proto = Tcp, s_service = ''unknown'',
                            s_version = ''OpenSSH 9.0'', s_notes = []\<rparr>],
            h_enumeration = [], h_vulnerabilities = [], h_exploitation = [],
            h_post_exploitation = [], h_credentials = [], h_key_commands = []\<rparr>"
    unfolding discoverHost_known [OF ssh_store_active known]
    by (simp add: ssh_meta_def ssh_again_def merge_host_def to_service_def mergeServices_def
        merge_step_def overwrite_fields_def same_endpoint_def or_else_def truthy_def Let_def)
qed

text \<open>
  C2, as amended. A \<^verbatim>\<open>host_discover\<close> call on a known ip succeeds, returns the
  merged host and commits it in place of the old one. The service list of the
  result is at least as long as before; if no two entries shared a (port,
  protocol) pair before, none do afterwards; the hostname is unchanged when it was
  non-empty or the call gives none, and likewise the OS.
\<close>

theorem rediscovery_keeps_known_detail:
  assumes "active_record s = Some meta"
    and "findIndex (\<lambda>h. h_ip h = dp_ip params) (m_hosts meta) = Some i"
  shows "\<exists>host'. discoverHost params ts1 ts2 ts_save s
             = (Inr host', saveMetadataAndRender ts_save (meta\<lparr>m_hosts := (m_hosts meta)[i := host']\<rparr>) s)
           \<and> active_record (saveMetadataAndRender ts_save (meta\<lparr>m_hosts := (m_hosts meta)[i := host']\<rparr>) s)
               = Some (meta\<lparr>m_hosts := (m_hosts meta)[i := host'], m_updated_at := ts_save\<rparr>)
           \<and> length (h_services (m_hosts meta ! i)) \<le> length (h_services host')
           \<and> (distinct (map endpoint (h_services (m_hosts meta ! i)))
                 \<longrightarrow> distinct (map endpoint (h_services host')))
           \<and> (h_hostname (m_hosts meta ! i) \<noteq> [] \<or> \<not> truthy (dp_hostname params)
                 \<longrightarrow> h_hostname host' = h_hostname (m_hosts meta ! i))
           \<and> (h_os (m_hosts meta ! i) \<noteq> [] \<or> \<not> truthy (dp_os params)
                 \<longrightarrow> h_os host' = h_os (m_hosts meta ! i))"
proof (intro exI conjI)
  let ?host' = "merge_host params ts1 (m_hosts meta ! i)"
  show "discoverHost params ts1 ts2 ts_save s
          = (Inr ?host', saveMetadataAndRender ts_save (meta\<lparr>m_hosts := (m_hosts meta)[i := ?host']\<rparr>) s)"
    by (rule discoverHost_known [OF assms])
  show "active_record (saveMetadataAndRender ts_save (meta\<lparr>m_hosts := (m_hosts meta)[i := ?host']\<rparr>) s)
          = Some (meta\<lparr>m_hosts := (m_hosts meta)[i := ?host'], m_updated_at := ts_save\<rparr>)"
    using active_record_save [OF assms(1), of "meta\<lparr>m_hosts := (m_hosts meta)[i := ?host']\<rparr>" ts_save]
    by simp
  show "length (h_services (m_hosts meta ! i)) \<le> length (h_services ?host')"
    by (rule merge_host_services_length)
  show "distinct (map endpoint (h_services (m_hosts meta ! i)))
          \<longrightarrow> distinct (map endpoint (h_services ?host'))"
    by (simp add: merge_host_services_distinct)
  show "h_hostname (m_hosts meta ! i) \<noteq> [] \<or> \<not> truthy (dp_hostname params)
          \<longrightarrow> h_hostname ?host' = h_hostname (m_hosts meta ! i)"
    using merge_host_hostname by blast
  show "h_os (m_hosts meta ! i) \<noteq> [] \<or> \<not> truthy (dp_os params)
          \<longrightarrow> h_os ?host' = h_os (m_hosts meta ! i)"
    using merge_host_os by blast
qed

theorem rediscovery_keeps_known_detail_witness:
  "active_record ssh_store = Some ssh_meta
   \<and> findIndex (\<lambda>h. h_ip h = dp_ip ssh_again) (m_hosts ssh_meta) = Some 0
   \<and> distinct (map endpoint (h_services (m_hosts ssh_meta ! 0)))
   \<and> \<not> truthy (dp_hostname ssh_again) \<and> \<not> truthy (dp_os ssh_again)
   \<and> (\<exists>host'. fst (discoverHost ssh_again ''t3'' ''t3'' ''t4'' ssh_store) = Inr host'
         \<and> 1 \<le> length (h_services host')
         \<and> distinct (map endpoint (h_services host'))
         \<and> h_hostname host' = ''gateway.test.corp''
         \<and> h_os host' = ''Linux 5.x'')"
proof -
  have known: "findIndex (\<lambda>h. h_ip h = dp_ip ssh_again) (m_hosts ssh_meta) = Some 0"
    by (simp add: ssh_meta_def ssh_again_def)
  have before: "distinct (map endpoint (h_services (m_hosts ssh_meta ! 0)))"
    "length (h_services (m_hosts ssh_meta ! 0)) = 1"
    "h_hostname (m_hosts ssh_meta ! 0) = ''gateway.test.corp''"
    "h_os (m_hosts ssh_meta ! 0) = ''Linux 5.x''"
    by (simp_all add: ssh_meta_def)
  have omitted: "\<not> truthy (dp_hostname ssh_again)" "\<not> truthy (dp_os ssh_again)"
    by (simp_all add: ssh_again_def truthy_def)
  from rediscovery_keeps_known_detail [OF ssh_store_active known, of "''t3''" "''t3''" "''t4''"]
  obtain host' where h:
    "discoverHost ssh_again ''t3'' ''t3'' ''t4'' ssh_store
       = (Inr host', saveMetadataAndRender ''t4'' (ssh_meta\<lparr>m_hosts := (m_hosts ssh_meta)[0 := host']\<rparr>) ssh_store)"
    "length (h_services (m_hosts ssh_meta ! 0)) \<le> length (h_services host')"
    "distinct (map endpoint (h_services (m_hosts ssh_meta ! 0)))
       \<longrightarrow> distinct (map endpoint (h_services host'))"
    "h_hostname (m_hosts ssh_meta ! 0) \<noteq> [] \<or> \<not> truthy (dp_hostname ssh_again)
       \<longrightarrow> h_hostname host' = h_hostname (m_hosts ssh_meta ! 0)"
    "h_os (m_hosts ssh_meta ! 0) \<noteq> [] \<or> \<not> truthy (dp_os ssh_again)
       \<longrightarrow> h_os host' = h_os (m_hosts ssh_meta ! 0)"
    by blast
  have r1: "fst (discoverHost ssh_again ''t3'' ''t3'' ''t4'' ssh_store) = Inr host'"
    by (simp only: h(1) fst_conv)
  have r2: "1 \<le> length (h_services host')"
    using h(2) by (simp only: before(2))
  have r3: "distinct (map endpoint (h_services host'))"
    using h(3) before(1) by (rule mp)
  have r4: "h_hostname host' = ''gateway.test.corp''"
    using h(4) omitted(1) by (simp only: before(3)) blast
  have r5: "h_os host' = ''Linux 5.x''"
    using h(5) omitted(2) by (simp only: before(4)) blast
  from r1 r2 r3 r4 r5 have "\<exists>host'. fst (discoverHost ssh_again ''t3'' ''t3'' ''t4'' ssh_store) = Inr host'
         \<and> 1 \<le> length (h_services host')
         \<and> distinct (map endpoint (h_services host'))
         \<and> h_hostname host' = ''gateway.test.corp''
         \<and> h_os host' = ''Linux 5.x''"
    by (intro exI [of _ host'] conjI)
  with ssh_store_active known before(1) omitted show ?thesis
    by (intro conjI)
qed

text \<open>
  The claim as stated also promises that the result never holds two entries with
  the same pair. The branch for a new host stores the incoming list as it is, so a
  first discovery that lists 80/tcp twice records it twice; a re-discovery of that
  host, here with no services at all, returns and stores both entries.
\<close>

theorem rediscovery_duplicate_endpoints_counterexample:
  "map h_ip (case active_record http_store of None \<Rightarrow> [] | Some meta \<Rightarrow> m_hosts meta) = [''10.0.0.2'']
   \<and> (case fst (discoverHost http_again ''t3'' ''t3'' ''t4'' http_store) of
         Inl e \<Rightarrow> []
       | Inr host \<Rightarrow> map endpoint (h_services host)) = [(80, Tcp), (80, Tcp)]"
  by (simp add: active_record_def http_store_def http_twice_def http_again_def test_corp_store_eq
      test_corp_meta_def discoverHost_def new_host_def merge_host_def to_service_def or_else_def
      truthy_def endpoint_def storage_defs Let_def)

section \<open>The index after a commit\<close>

lemma find_after_upsert:
  "find (\<lambda>e. i_id e = i_id entry) (index_json (updateIndexEntry entry s)) = Some entry"
proof (cases "findIndex (\<lambda>e. i_id e = i_id entry) (index_json s)")
  case None
  then show ?thesis
    by (simp add: updateIndexEntry_def getIndex_def find_append_new)
next
  case (Some i)
  then show ?thesis
    by (simp add: updateIndexEntry_def getIndex_def find_update_at_findIndex)
qed

lemma save_record:
  "metadata_json (saveMetadataAndRender ts meta s) (m_id meta) = Some (meta\<lparr>m_updated_at := ts\<rparr>)"
  by (simp add: saveMetadataAndRender_def writeMetadata_def Let_def)

lemma save_index_entry:
  "find (\<lambda>e. i_id e = m_id meta) (index_json (saveMetadataAndRender ts meta s))
     = Some (buildIndexEntry (meta\<lparr>m_updated_at := ts\<rparr>))"
  using find_after_upsert [of "buildIndexEntry (meta\<lparr>m_updated_at := ts\<rparr>)"
      "writeMetadata (m_id meta) (meta\<lparr>m_updated_at := ts\<rparr>) s"]
  by (simp add: saveMetadataAndRender_def Let_def buildIndexEntry_def)

lemma index_consistent_save:
  "m_id meta = eid \<Longrightarrow> index_consistent (saveMetadataAndRender ts meta s) eid"
  using save_record [of ts meta s] save_index_entry [of meta ts s]
  by (simp add: index_consistent_def buildIndexEntry_def)

lemma addFinding_loaded:
  assumes "loadActiveMetadata s = Inr meta"
  shows "addFinding params ts1 ts2 ts_save s =
     (if (case af_cvss params of None \<Rightarrow> False | Some c \<Rightarrow> cvss_out_of_range c)
      then (Inl InvalidCvss, s)
      else (let finding =
                  \<lparr>f_id = nextFindingId (m_findings meta), f_host = af_host params,
                   f_vulnerability = af_vulnerability params,
                   f_severity = af_severity params, f_cvss = af_cvss params,
                   f_status = (case af_status params of None \<Rightarrow> Confirmed | Some v \<Rightarrow> v),
                   f_evidence_file = or_null (af_evidence_file params),
                   f_notes = or_else (af_notes params) [],
                   f_created_at = ts1, f_updated_at = ts2\<rparr>
            in (Inr finding,
                saveMetadataAndRender ts_save (meta\<lparr>m_findings := m_findings meta @ [finding]\<rparr>) s)))"
  using assms by (simp add: addFinding_def Let_def)

lemma addFinding_commit:
  assumes "loadActiveMetadata s = Inr meta" and "addFinding params ts1 ts2 ts_save s = (Inr r, s')"
  shows "s' = saveMetadataAndRender ts_save (meta\<lparr>m_findings := m_findings meta @ [r]\<rparr>) s"
  using assms(2) unfolding addFinding_loaded [OF assms(1)]
  by (clarsimp simp: Let_def split: if_splits)

lemma updateFinding_commit:
  assumes "loadActiveMetadata s = Inr meta" and "updateFinding params ts ts_save s = (Inr r, s')"
  shows "\<exists>i. s' = saveMetadataAndRender ts_save (meta\<lparr>m_findings := (m_findings meta)[i := r]\<rparr>) s"
  using assms by (clarsimp simp: updateFinding_def Let_def split: option.splits sum.splits) blast

lemma discoverHost_commit:
  assumes "loadActiveMetadata s = Inr meta" and "discoverHost params ts1 ts2 ts_save s = (Inr r, s')"
  shows "\<exists>hosts. s' = saveMetadataAndRender ts_save (meta\<lparr>m_hosts := hosts\<rparr>) s"
  using assms by (clarsimp simp: discoverHost_def Let_def split: option.splits) blast+

lemma saveEvidence_commit:
  assumes "loadActiveMetadata s = Inr meta" and "saveEvidence params ts ts_save s = (Inr r, s')"
  shows "\<exists>entries. s' = saveMetadataAndRender ts_save (meta\<lparr>m_evidence_index := entries\<rparr>)
            (writeEvidenceFile (m_id meta) (se_filename params) (se_content params) s)"
  using assms
  by (clarsimp simp: saveEvidence_def writeFileAtomic_def Let_def
      split: option.splits if_splits) blast+

lemma index_consistent_commit:
  "m_id rec = eid \<Longrightarrow> index_consistent (updateIndexEntry (buildIndexEntry rec) (writeMetadata eid rec s)) eid"
  using find_after_upsert [of "buildIndexEntry rec" "writeMetadata eid rec s"]
  by (simp add: index_consistent_def buildIndexEntry_def writeMetadata_def)

lemma index_consistent_clear [simp]:
  "index_consistent (clearActiveEngagement s) eid = index_consistent s eid"
  by (simp add: index_consistent_def clearActiveEngagement_def cong: option.case_cong)

lemma index_consistent_set [simp]:
  "index_consistent (setActiveEngagement x s) eid = index_consistent s eid"
  by (simp add: index_consistent_def setActiveEngagement_def cong: option.case_cong)

lemma active_record_props:
  "active_record s = Some meta \<Longrightarrow>
     requireActiveEngagement s = Inr (m_id meta) \<and> metadata_json s (m_id meta) = Some meta"
  by (auto simp: active_record_def requireActiveEngagement_def getActiveEngagementId_def
      split: option.splits if_splits)

lemma closeEngagement_active:
  assumes "active_record s = Some meta"
  shows "closeEngagement status executive_summary ts s =
     (let meta1 = meta\<lparr>m_status := (case status of None \<Rightarrow> Completed | Some v \<Rightarrow> v),
                        m_updated_at := ts\<rparr>;
          meta' = (case executive_summary of
                     None \<Rightarrow> meta1
                   | Some v \<Rightarrow> if v = [] then meta1 else meta1\<lparr>m_executive_summary := v\<rparr>)
      in (Inr (m_id meta, case status of None \<Rightarrow> Completed | Some v \<Rightarrow> v),
          clearActiveEngagement
            (updateIndexEntry (buildIndexEntry meta') (writeMetadata (m_id meta) meta' s))))"
  using active_record_props [OF assms]
  by (simp add: closeEngagement_def Let_def split: option.splits)

lemma closeEngagement_consistent:
  assumes "active_record s = Some meta" and "closeEngagement status es ts s = (Inr r, s')"
  shows "index_consistent s' (m_id meta)"
proof -
  let ?meta1 = "meta\<lparr>m_status := (case status of None \<Rightarrow> Completed | Some v \<Rightarrow> v), m_updated_at := ts\<rparr>"
  let ?meta' = "(case es of None \<Rightarrow> ?meta1
                 | Some v \<Rightarrow> if v = [] then ?meta1 else ?meta1\<lparr>m_executive_summary := v\<rparr>)"
  have id: "m_id ?meta' = m_id meta"
    by (simp split: option.splits)
  from assms(2) have "s' = clearActiveEngagement
            (updateIndexEntry (buildIndexEntry ?meta') (writeMetadata (m_id meta) ?meta' s))"
    unfolding closeEngagement_active [OF assms(1)] by (simp add: Let_def)
  then show ?thesis
    using index_consistent_commit [OF id, of s] by simp
qed

lemma createEngagement_consistent:
  "index_consistent (snd (createEngagement target scope roe d ts s))
     (m_id (fst (createEngagement target scope roe d ts s)))"
proof -
  let ?eid = "new_engagement_id (getIndex s) d target"
  let ?meta = "makeEmptyMetadata ?eid target scope (or_else roe []) ts"
  have "m_id ?meta = ?eid"
    by (simp add: makeEmptyMetadata_def)
  from index_consistent_commit [OF this, of s] show ?thesis
    by (simp add: createEngagement_def Let_def makeEmptyMetadata_def)
qed

lemma test_corp_load: "loadActiveMetadata test_corp_store = Inr test_corp_meta"
  by (rule loadActiveMetadata_active [OF test_corp_active])

text \<open>
  C4. After the universal save path \<^verbatim>\<open>saveMetadataAndRender\<close> the index entry of
  the saved engagement is the projection of the record now stored: same id,
  target, status and timestamps, and counts equal to the lengths of the record's
  findings, hosts, credentials and command log. Hence the same holds after every
  successful \<^verbatim>\<open>finding_add\<close>, \<^verbatim>\<open>finding_update\<close>, \<^verbatim>\<open>host_discover\<close> and
  \<^verbatim>\<open>evidence_save\<close>, which all end in that path, and also after
  \<^verbatim>\<open>closeEngagement\<close> and \<^verbatim>\<open>createEngagement\<close>, which write the record and
  the entry themselves.
\<close>

theorem index_entry_matches_record:
  "index_consistent (saveMetadataAndRender ts meta s) (m_id meta)
   \<and> (loadActiveMetadata s = Inr meta \<and> addFinding pa a1 a2 a3 s = (Inr fa, sa)
        \<longrightarrow> index_consistent sa (m_id meta))
   \<and> (loadActiveMetadata s = Inr meta \<and> updateFinding pu u1 u2 s = (Inr fu, su)
        \<longrightarrow> index_consistent su (m_id meta))
   \<and> (loadActiveMetadata s = Inr meta \<and> discoverHost ph h1 h2 h3 s = (Inr fh, sh)
        \<longrightarrow> index_consistent sh (m_id meta))
   \<and> (loadActiveMetadata s = Inr meta \<and> saveEvidence pe e1 e2 s = (Inr fe, se)
        \<longrightarrow> index_consistent se (m_id meta))
   \<and> (active_record s = Some meta \<and> closeEngagement st es tc s = (Inr fc, sc)
        \<longrightarrow> index_consistent sc (m_id meta))
   \<and> index_consistent (snd (createEngagement target scope roe d tn s))
        (m_id (fst (createEngagement target scope roe d tn s)))"
proof (intro conjI impI)
  show "index_consistent (saveMetadataAndRender ts meta s) (m_id meta)"
    by (rule index_consistent_save) simp
next
  assume "loadActiveMetadata s = Inr meta \<and> addFinding pa a1 a2 a3 s = (Inr fa, sa)"
  then have "sa = saveMetadataAndRender a3 (meta\<lparr>m_findings := m_findings meta @ [fa]\<rparr>) s"
    using addFinding_commit by blast
  then show "index_consistent sa (m_id meta)"
    by (simp add: index_consistent_save)
next
  assume "loadActiveMetadata s = Inr meta \<and> updateFinding pu u1 u2 s = (Inr fu, su)"
  then obtain i where "su = saveMetadataAndRender u2 (meta\<lparr>m_findings := (m_findings meta)[i := fu]\<rparr>) s"
    using updateFinding_commit by blast
  then show "index_consistent su (m_id meta)"
    by (simp add: index_consistent_save)
next
  assume "loadActiveMetadata s = Inr meta \<and> discoverHost ph h1 h2 h3 s = (Inr fh, sh)"
  then obtain hosts where "sh = saveMetadataAndRender h3 (meta\<lparr>m_hosts := hosts\<rparr>) s"
    using discoverHost_commit by blast
  then show "index_consistent sh (m_id meta)"
    by (simp add: index_consistent_save)
next
  assume "loadActiveMetadata s = Inr meta \<and> saveEvidence pe e1 e2 s = (Inr fe, se)"
  then obtain entries where "se = saveMetadataAndRender e2 (meta\<lparr>m_evidence_index := entries\<rparr>)
            (writeEvidenceFile (m_id meta) (se_filename pe) (se_content pe) s)"
    using saveEvidence_commit by blast
  then show "index_consistent se (m_id meta)"
    by (simp add: index_consistent_save)
next
  assume "active_record s = Some meta \<and> closeEngagement st es tc s = (Inr fc, sc)"
  then show "index_consistent sc (m_id meta)"
    using closeEngagement_consistent by blast
next
  show "index_consistent (snd (createEngagement target scope roe d tn s))
        (m_id (fst (createEngagement target scope roe d tn s)))"
    by (rule createEngagement_consistent)
qed

theorem index_entry_matches_record_witness:
  "loadActiveMetadata test_corp_store = Inr test_corp_meta
   \<and> m_id test_corp_meta = ''2026-01-01-test-corp''
   \<and> (\<exists>f. fst (addFinding sqli_finding ''t1'' ''t1'' ''t2'' test_corp_store) = Inr f)
   \<and> index_consistent (snd (addFinding sqli_finding ''t1'' ''t1'' ''t2'' test_corp_store))
        ''2026-01-01-test-corp''
   \<and> map i_finding_count (index_json (snd (addFinding sqli_finding ''t1'' ''t1'' ''t2'' test_corp_store))) = [1]"
proof -
  have id: "m_id test_corp_meta = ''2026-01-01-test-corp''"
    by (simp add: test_corp_meta_def makeEmptyMetadata_def)
  have ok: "\<not> (case af_cvss sqli_finding of None \<Rightarrow> False | Some c \<Rightarrow> cvss_out_of_range c)"
    by (simp add: sqli_finding_def cvss_out_of_range_def)
  obtain f s' where run: "addFinding sqli_finding ''t1'' ''t1'' ''t2'' test_corp_store = (Inr f, s')"
    unfolding addFinding_loaded [OF test_corp_load] using ok by (simp add: Let_def)
  from index_entry_matches_record [of "''t1''" test_corp_meta test_corp_store sqli_finding
      "''t1''" "''t1''" "''t2''" f s', THEN conjunct2, THEN conjunct1] test_corp_load run
  have "index_consistent s' (m_id test_corp_meta)"
    by simp
  moreover have "map i_finding_count (index_json s') = [1]"
    using addFinding_commit [OF test_corp_load run]
    by (simp add: test_corp_store_eq test_corp_meta_def storage_defs Let_def)
  ultimately show ?thesis
    using test_corp_load id run by simp
qed

section \<open>CVSS validation\<close>

lemma updateFinding_loaded:
  assumes "loadActiveMetadata s = Inr meta"
    and "findIndex (\<lambda>f. f_id f = uf_id params) (m_findings meta) = Some i"
  shows "updateFinding params ts ts_save s =
     (case apply_update params ts (m_findings meta ! i) of
        Inl e \<Rightarrow> (Inl e, s)
      | Inr finding \<Rightarrow>
          (Inr finding,
           saveMetadataAndRender ts_save (meta\<lparr>m_findings := (m_findings meta)[i := finding]\<rparr>) s))"
  using assms by (simp add: updateFinding_def Let_def cong: sum.case_cong)

lemma out_of_range_iff: "cvss_out_of_range c \<longleftrightarrow> \<not> (0 \<le> c \<and> c \<le> 10)"
  by (auto simp: cvss_out_of_range_def)

lemma apply_update_error:
  "(\<exists>e. apply_update params ts f = Inl e) \<longleftrightarrow>
     (case uf_cvss params of None \<Rightarrow> False | Some c \<Rightarrow> \<not> (0 \<le> c \<and> c \<le> 10))"
  by (simp add: apply_update_def out_of_range_iff Let_def split: option.splits)

lemma apply_update_error_kind:
  "apply_update params ts f = Inl e \<Longrightarrow> e = InvalidCvss"
  by (simp add: apply_update_def Let_def split: option.splits if_splits)

lemma addFinding_invalid_only_if:
  assumes "fst (addFinding params ts1 ts2 ts_save s) = Inl InvalidCvss"
  shows "case af_cvss params of None \<Rightarrow> False | Some c \<Rightarrow> \<not> (0 \<le> c \<and> c \<le> 10)"
proof -
  from assms have "case af_cvss params of None \<Rightarrow> False | Some c \<Rightarrow> cvss_out_of_range c"
    by (simp add: addFinding_def Let_def loadActiveMetadata_def requireActiveEngagement_def
        split: sum.splits option.splits if_splits)
  then show ?thesis
    by (simp add: out_of_range_iff split: option.splits)
qed

lemma updateFinding_invalid_only_if:
  assumes "fst (updateFinding params ts ts_save s) = Inl InvalidCvss"
  shows "case uf_cvss params of None \<Rightarrow> False | Some c \<Rightarrow> \<not> (0 \<le> c \<and> c \<le> 10)"
proof -
  from assms have "\<exists>f e. apply_update params ts f = Inl e"
    by (simp add: updateFinding_def Let_def loadActiveMetadata_def requireActiveEngagement_def
        split: sum.splits option.splits if_splits) blast+
  then show ?thesis
    using apply_update_error [of params ts] by blast
qed

lemma show_nat_1: "show_nat 1 = ''1''"
  by (subst show_nat.simps) (simp add: digit_char_def)

lemma show_nat_Suc_0: "show_nat (Suc 0) = ''1''"
  using show_nat_1 by simp

lemma nextFindingId_Nil: "nextFindingId [] = ''F-001''"
  by (simp add: nextFindingId_def show_int_def show_nat_Suc_0 padStart3_def numeral_2_eq_2)

lemma sqli_store_active: "active_record sqli_store = Some sqli_meta"
  unfolding sqli_store_def addFinding_loaded [OF test_corp_load]
  by (simp add: active_record_def sqli_meta_def test_corp_store_eq test_corp_meta_def
      sqli_finding_def cvss_out_of_range_def or_null_def or_else_def nextFindingId_Nil
      storage_defs Let_def)

lemma sqli_store_load: "loadActiveMetadata sqli_store = Inr sqli_meta"
  by (rule loadActiveMetadata_active [OF sqli_store_active])

lemma sqli_found:
  "findIndex (\<lambda>f. f_id f = uf_id (cvss_update c)) (m_findings sqli_meta) = Some 0"
  by (simp add: cvss_update_def sqli_meta_def)

text \<open>
  C7. \<^verbatim>\<open>finding_add\<close> and \<^verbatim>\<open>finding_update\<close> fail with \<^verbatim>\<open>InvalidCvss\<close>
  exactly when a CVSS score is supplied and lies outside \<open>[0, 10]\<close>. In every
  store, \<^verbatim>\<open>InvalidCvss\<close> is returned only for a supplied score outside the
  range, so an omitted score is never rejected. Where the call gets as far as the
  check (the active record loads and, for an update, the finding exists), a score
  outside the range gives \<^verbatim>\<open>InvalidCvss\<close> and any other call succeeds. The
  witness runs the scores \<open>-0.1\<close>, \<open>10.1\<close>, \<open>0\<close>, \<open>10\<close> and an omitted
  score through both operations.
\<close>

theorem cvss_rejected_exactly_outside_range:
  "(fst (addFinding pa a1 a2 a3 s) = Inl InvalidCvss
      \<longrightarrow> (case af_cvss pa of None \<Rightarrow> False | Some c \<Rightarrow> \<not> (0 \<le> c \<and> c \<le> 10)))
   \<and> (fst (updateFinding pu u1 u2 s) = Inl InvalidCvss
      \<longrightarrow> (case uf_cvss pu of None \<Rightarrow> False | Some c \<Rightarrow> \<not> (0 \<le> c \<and> c \<le> 10)))
   \<and> (loadActiveMetadata s = Inr meta \<longrightarrow>
        (if (case af_cvss pa of None \<Rightarrow> False | Some c \<Rightarrow> \<not> (0 \<le> c \<and> c \<le> 10))
         then fst (addFinding pa a1 a2 a3 s) = Inl InvalidCvss
         else \<exists>f. fst (addFinding pa a1 a2 a3 s) = Inr f))
   \<and> (loadActiveMetadata s = Inr meta
        \<and> findIndex (\<lambda>f. f_id f = uf_id pu) (m_findings meta) = Some i \<longrightarrow>
        (if (case uf_cvss pu of None \<Rightarrow> False | Some c \<Rightarrow> \<not> (0 \<le> c \<and> c \<le> 10))
         then fst (updateFinding pu u1 u2 s) = Inl InvalidCvss
         else \<exists>f. fst (updateFinding pu u1 u2 s) = Inr f))"
proof (intro conjI impI)
  assume "fst (addFinding pa a1 a2 a3 s) = Inl InvalidCvss"
  then show "(case af_cvss pa of None \<Rightarrow> False | Some c \<Rightarrow> \<not> (0 \<le> c \<and> c \<le> 10))"
    by (rule addFinding_invalid_only_if)
next
  assume "fst (updateFinding pu u1 u2 s) = Inl InvalidCvss"
  then show "(case uf_cvss pu of None \<Rightarrow> False | Some c \<Rightarrow> \<not> (0 \<le> c \<and> c \<le> 10))"
    by (rule updateFinding_invalid_only_if)
next
  assume "loadActiveMetadata s = Inr meta"
  then show "if (case af_cvss pa of None \<Rightarrow> False | Some c \<Rightarrow> \<not> (0 \<le> c \<and> c \<le> 10))
         then fst (addFinding pa a1 a2 a3 s) = Inl InvalidCvss
         else \<exists>f. fst (addFinding pa a1 a2 a3 s) = Inr f"
    by (simp add: addFinding_loaded out_of_range_iff Let_def split: option.splits)
next
  assume a: "loadActiveMetadata s = Inr meta
        \<and> findIndex (\<lambda>f. f_id f = uf_id pu) (m_findings meta) = Some i"
  show "if (case uf_cvss pu of None \<Rightarrow> False | Some c \<Rightarrow> \<not> (0 \<le> c \<and> c \<le> 10))
         then fst (updateFinding pu u1 u2 s) = Inl InvalidCvss
         else \<exists>f. fst (updateFinding pu u1 u2 s) = Inr f"
  proof (cases "apply_update pu u1 (m_findings meta ! i)")
    case (Inl e)
    then have "e = InvalidCvss" by (rule apply_update_error_kind)
    moreover from Inl have "(case uf_cvss pu of None \<Rightarrow> False | Some c \<Rightarrow> \<not> (0 \<le> c \<and> c \<le> 10))"
      using apply_update_error [of pu u1 "m_findings meta ! i"] by blast
    ultimately show ?thesis
      using a Inl by (simp add: updateFinding_loaded)
  next
    case (Inr f)
    then have "\<not> (case uf_cvss pu of None \<Rightarrow> False | Some c \<Rightarrow> \<not> (0 \<le> c \<and> c \<le> 10))"
      using apply_update_error [of pu u1 "m_findings meta ! i"] by simp
    then show ?thesis
      using a Inr by (simp add: updateFinding_loaded)
  qed
qed

theorem cvss_rejected_exactly_outside_range_witness:
  "loadActiveMetadata test_corp_store = Inr test_corp_meta
   \<and> fst (addFinding (cvss_call (Some (- 1 / 10))) ''t3'' ''t3'' ''t4'' test_corp_store) = Inl InvalidCvss
   \<and> fst (addFinding (cvss_call (Some (101 / 10))) ''t3'' ''t3'' ''t4'' test_corp_store) = Inl InvalidCvss
   \<and> (\<exists>f. fst (addFinding (cvss_call (Some 0)) ''t3'' ''t3'' ''t4'' test_corp_store) = Inr f)
   \<and> (\<exists>f. fst (addFinding (cvss_call (Some 10)) ''t3'' ''t3'' ''t4'' test_corp_store) = Inr f)
   \<and> (\<exists>f. fst (addFinding (cvss_call None) ''t3'' ''t3'' ''t4'' test_corp_store) = Inr f)
   \<and> loadActiveMetadata sqli_store = Inr sqli_meta
   \<and> findIndex (\<lambda>f. f_id f = ''F-001'') (m_findings sqli_meta) = Some 0
   \<and> fst (updateFinding (cvss_update (Some (- 1 / 10))) ''t3'' ''t4'' sqli_store) = Inl InvalidCvss
   \<and> fst (updateFinding (cvss_update (Some (101 / 10))) ''t3'' ''t4'' sqli_store) = Inl InvalidCvss
   \<and> (\<exists>f. fst (updateFinding (cvss_update (Some 0)) ''t3'' ''t4'' sqli_store) = Inr f)
   \<and> (\<exists>f. fst (updateFinding (cvss_update (Some 10)) ''t3'' ''t4'' sqli_store) = Inr f)
   \<and> (\<exists>f. fst (updateFinding (cvss_update None) ''t3'' ''t4'' sqli_store) = Inr f)"
proof -
  note add = cvss_rejected_exactly_outside_range
    [where s = test_corp_store and meta = test_corp_meta and ?a1.0 = "''t3''" and ?a2.0 = "''t3''"
       and ?a3.0 = "''t4''", THEN conjunct2, THEN conjunct2, THEN conjunct1, THEN mp, OF test_corp_load]
  note upd = cvss_rejected_exactly_outside_range
    [where s = sqli_store and meta = sqli_meta and ?u1.0 = "''t3''" and ?u2.0 = "''t4''" and i = 0,
       THEN conjunct2, THEN conjunct2, THEN conjunct2, THEN mp]
  have a1: "fst (addFinding (cvss_call (Some (- 1 / 10))) ''t3'' ''t3'' ''t4'' test_corp_store) = Inl InvalidCvss"
    using add [of "cvss_call (Some (- 1 / 10))"] by (simp add: cvss_call_def)
  have a2: "fst (addFinding (cvss_call (Some (101 / 10))) ''t3'' ''t3'' ''t4'' test_corp_store) = Inl InvalidCvss"
    using add [of "cvss_call (Some (101 / 10))"] by (simp add: cvss_call_def)
  have a3: "\<exists>f. fst (addFinding (cvss_call (Some 0)) ''t3'' ''t3'' ''t4'' test_corp_store) = Inr f"
    using add [of "cvss_call (Some 0)"] by (simp add: cvss_call_def)
  have a4: "\<exists>f. fst (addFinding (cvss_call (Some 10)) ''t3'' ''t3'' ''t4'' test_corp_store) = Inr f"
    using add [of "cvss_call (Some 10)"] by (simp add: cvss_call_def)
  have a5: "\<exists>f. fst (addFinding (cvss_call None) ''t3'' ''t3'' ''t4'' test_corp_store) = Inr f"
    using add [of "cvss_call None"] by (simp add: cvss_call_def)
  have found: "findIndex (\<lambda>f. f_id f = ''F-001'') (m_findings sqli_meta) = Some 0"
    by (simp add: sqli_meta_def)
  have pre: "loadActiveMetadata sqli_store = Inr sqli_meta
      \<and> findIndex (\<lambda>f. f_id f = uf_id (cvss_update c)) (m_findings sqli_meta) = Some 0" for c
    using sqli_store_load sqli_found by simp
  have u1: "fst (updateFinding (cvss_update (Some (- 1 / 10))) ''t3'' ''t4'' sqli_store) = Inl InvalidCvss"
    using upd [of "cvss_update (Some (- 1 / 10))", OF pre] by (simp add: cvss_update_def)
  have u2: "fst (updateFinding (cvss_update (Some (101 / 10))) ''t3'' ''t4'' sqli_store) = Inl InvalidCvss"
    using upd [of "cvss_update (Some (101 / 10))", OF pre] by (simp add: cvss_update_def)
  have u3: "\<exists>f. fst (updateFinding (cvss_update (Some 0)) ''t3'' ''t4'' sqli_store) = Inr f"
    using upd [of "cvss_update (Some 0)", OF pre] by (simp add: cvss_update_def)
  have u4: "\<exists>f. fst (updateFinding (cvss_update (Some 10)) ''t3'' ''t4'' sqli_store) = Inr f"
    using upd [of "cvss_update (Some 10)", OF pre] by (simp add: cvss_update_def)
  have u5: "\<exists>f. fst (updateFinding (cvss_update None) ''t3'' ''t4'' sqli_store) = Inr f"
    using upd [of "cvss_update None", OF pre] by (simp add: cvss_update_def)
  from test_corp_load a1 a2 a3 a4 a5 sqli_store_load found u1 u2 u3 u4 u5 show ?thesis
    by (intro conjI)
qed

text \<open>
  C10. When \<^verbatim>\<open>finding_add\<close> or \<^verbatim>\<open>finding_update\<close> fails with
  \<^verbatim>\<open>InvalidCvss\<close>, the store is the one before the call: no finding is added, no
  stored field changes and the index is not touched. The same holds for every
  error of the two operations. In \<^verbatim>\<open>finding_update\<close> the severity is assigned
  before the check, but only on the copy in memory; the witness updates
  \<^verbatim>\<open>F-001\<close> with severity \<^verbatim>\<open>high\<close> and CVSS 10.1 and the stored finding
  keeps its severity.
\<close>

theorem invalid_cvss_leaves_store_unchanged:
  "(addFinding pa a1 a2 a3 s = (Inl InvalidCvss, sa) \<longrightarrow> sa = s)
   \<and> (updateFinding pu u1 u2 s = (Inl InvalidCvss, su) \<longrightarrow> su = s)
   \<and> (fst (addFinding pa a1 a2 a3 s) = Inl e \<longrightarrow> snd (addFinding pa a1 a2 a3 s) = s)
   \<and> (fst (updateFinding pu u1 u2 s) = Inl e \<longrightarrow> snd (updateFinding pu u1 u2 s) = s)"
proof -
  have add: "snd (addFinding pa a1 a2 a3 s) = s" if "fst (addFinding pa a1 a2 a3 s) = Inl e" for e
    using that by (simp add: addFinding_def Let_def split: sum.splits if_splits)
  have upd: "snd (updateFinding pu u1 u2 s) = s" if "fst (updateFinding pu u1 u2 s) = Inl e" for e
    using that by (simp add: updateFinding_def Let_def split: sum.splits option.splits)
  have "sa = s" if "addFinding pa a1 a2 a3 s = (Inl InvalidCvss, sa)"
    using add [of InvalidCvss] that by simp
  moreover have "su = s" if "updateFinding pu u1 u2 s = (Inl InvalidCvss, su)"
    using upd [of InvalidCvss] that by simp
  ultimately show ?thesis
    using add upd by blast
qed

theorem invalid_cvss_leaves_store_unchanged_witness:
  "addFinding (cvss_call (Some (101 / 10))) ''t3'' ''t3'' ''t4'' sqli_store = (Inl InvalidCvss, sqli_store)
   \<and> updateFinding (cvss_update (Some (101 / 10))) ''t3'' ''t4'' sqli_store = (Inl InvalidCvss, sqli_store)
   \<and> active_record sqli_store = Some sqli_meta
   \<and> map f_severity (m_findings sqli_meta) = [Critical]
   \<and> uf_severity (cvss_update (Some (101 / 10))) = Some High"
proof -
  have a: "fst (addFinding (cvss_call (Some (101 / 10))) ''t3'' ''t3'' ''t4'' sqli_store) = Inl InvalidCvss"
    unfolding addFinding_loaded [OF sqli_store_load]
    by (simp add: cvss_call_def cvss_out_of_range_def)
  have u: "fst (updateFinding (cvss_update (Some (101 / 10))) ''t3'' ''t4'' sqli_store) = Inl InvalidCvss"
    unfolding updateFinding_loaded [OF sqli_store_load sqli_found]
    by (simp add: cvss_update_def apply_update_def cvss_out_of_range_def Let_def)
  note unchanged = invalid_cvss_leaves_store_unchanged
    [of "cvss_call (Some (101 / 10))" "''t3''" "''t3''" "''t4''" sqli_store _
        "cvss_update (Some (101 / 10))" "''t3''" "''t4''" _ InvalidCvss]
  have "snd (addFinding (cvss_call (Some (101 / 10))) ''t3'' ''t3'' ''t4'' sqli_store) = sqli_store"
    using unchanged a by blast
  with a have r1: "addFinding (cvss_call (Some (101 / 10))) ''t3'' ''t3'' ''t4'' sqli_store = (Inl InvalidCvss, sqli_store)"
    by (simp add: prod_eq_iff)
  have "snd (updateFinding (cvss_update (Some (101 / 10))) ''t3'' ''t4'' sqli_store) = sqli_store"
    using unchanged u by blast
  with u have r2: "updateFinding (cvss_update (Some (101 / 10))) ''t3'' ''t4'' sqli_store = (Inl InvalidCvss, sqli_store)"
    by (simp add: prod_eq_iff)
  have r4: "map f_severity (m_findings sqli_meta) = [Critical]"
    by (simp add: sqli_meta_def)
  have r5: "uf_severity (cvss_update (Some (101 / 10))) = Some High"
    by (simp add: cvss_update_def)
  from r1 r2 sqli_store_active r4 r5 show ?thesis
    by (intro conjI)
qed

section \<open>Closing an engagement\<close>

lemma inactive_require:
  "current_engagement_id s = None \<Longrightarrow> requireActiveEngagement s = Inl NoActiveEngagement"
  by (simp add: requireActiveEngagement_def getActiveEngagementId_def)

lemma inactive_load:
  "current_engagement_id s = None \<Longrightarrow> loadActiveMetadata s = Inl NoActiveEngagement"
  by (simp add: loadActiveMetadata_def inactive_require)

lemma closeEngagement_clears:
  assumes "closeEngagement status es ts s = (Inr r, s')"
  shows "current_engagement_id s' = None"
  using assms
  by (clarsimp simp: closeEngagement_def Let_def clearActiveEngagement_def
      split: sum.splits option.splits)

lemma closeEngagement_status:
  assumes "closeEngagement status es ts s = (Inr r, s')"
  shows "snd r = (case status of None \<Rightarrow> Completed | Some v \<Rightarrow> v)
         \<and> (\<exists>eid rec. requireActiveEngagement s = Inr eid \<and> metadata_json s' eid = Some rec
               \<and> m_status rec = snd r)"
proof -
  from assms obtain eid meta0 where a: "requireActiveEngagement s = Inr eid"
      "metadata_json s eid = Some meta0"
    by (auto simp: closeEngagement_def split: sum.splits option.splits)
  let ?meta1 = "meta0\<lparr>m_status := (case status of None \<Rightarrow> Completed | Some v \<Rightarrow> v), m_updated_at := ts\<rparr>"
  let ?meta = "(case es of None \<Rightarrow> ?meta1
                 | Some v \<Rightarrow> if v = [] then ?meta1 else ?meta1\<lparr>m_executive_summary := v\<rparr>)"
  have st: "m_status ?meta = (case status of None \<Rightarrow> Completed | Some v \<Rightarrow> v)"
    by (simp split: option.splits)
  from assms a have r: "r = (m_id ?meta, m_status ?meta)"
    and s': "s' = clearActiveEngagement (updateIndexEntry (buildIndexEntry ?meta) (writeMetadata eid ?meta s))"
    by (simp_all add: closeEngagement_def Let_def)
  from s' have "metadata_json s' eid = Some ?meta"
    by (simp add: clearActiveEngagement_def writeMetadata_def)
  with a(1) r st show ?thesis
    by (simp only: snd_conv) blast
qed

lemma candidate_id_nonempty: "new_engagement_id index d t \<noteq> []"
  by (simp add: new_engagement_id_def candidate_id_def Let_def)

text \<open>
  C8, as amended. After \<^verbatim>\<open>closeEngagement\<close> succeeds, the returned and stored
  status is the supplied one, or \<^verbatim>\<open>completed\<close> by default, and no engagement is
  active. From then on \<^verbatim>\<open>requireActiveEngagement\<close>, \<^verbatim>\<open>loadActiveMetadata\<close>,
  \<^verbatim>\<open>engagementStatus\<close>, \<^verbatim>\<open>closeEngagement\<close>, \<^verbatim>\<open>host_discover\<close>,
  \<^verbatim>\<open>finding_add\<close> and \<^verbatim>\<open>finding_update\<close> fail with
  \<^verbatim>\<open>NoActiveEngagement\<close> and leave the store as it is, so they keep failing
  until the active id is set again. \<^verbatim>\<open>evidence_save\<close> fails too and leaves the
  store as it is, with \<^verbatim>\<open>NoActiveEngagement\<close> unless its file name holds a path
  separator: that check comes first and gives \<^verbatim>\<open>InvalidFilename\<close>. After
  \<^verbatim>\<open>createEngagement\<close>, or \<^verbatim>\<open>resumeEngagement\<close> of a stored engagement with a
  non-empty id, an engagement is active again.
\<close>

theorem close_deactivates:
  assumes "closeEngagement status es ts s = (Inr r, s')"
  shows "snd r = (case status of None \<Rightarrow> Completed | Some v \<Rightarrow> v)
   \<and> (\<exists>eid rec. requireActiveEngagement s = Inr eid \<and> metadata_json s' eid = Some rec
         \<and> m_status rec = snd r)
   \<and> getActiveEngagementId s' = None
   \<and> requireActiveEngagement s' = Inl NoActiveEngagement
   \<and> loadActiveMetadata s' = Inl NoActiveEngagement
   \<and> engagementStatus s' = Inl NoActiveEngagement
   \<and> closeEngagement status2 es2 ts2 s' = (Inl NoActiveEngagement, s')
   \<and> discoverHost ph h1 h2 h3 s' = (Inl NoActiveEngagement, s')
   \<and> addFinding pa a1 a2 a3 s' = (Inl NoActiveEngagement, s')
   \<and> updateFinding pu u1 u2 s' = (Inl NoActiveEngagement, s')
   \<and> saveEvidence pe e1 e2 s'
       = (Inl (if CHR ''/'' \<in> set (se_filename pe) \<or> CHR 0x5C \<in> set (se_filename pe)
               then InvalidFilename else NoActiveEngagement), s')
   \<and> requireActiveEngagement (snd (createEngagement target scope roe d tn s'))
       = Inr (m_id (fst (createEngagement target scope roe d tn s')))
   \<and> (metadata_json s' eid2 \<noteq> None \<and> eid2 \<noteq> []
        \<longrightarrow> requireActiveEngagement (snd (resumeEngagement eid2 s')) = Inr eid2)"
proof -
  have none: "current_engagement_id s' = None"
    by (rule closeEngagement_clears [OF assms])
  note req = inactive_require [OF none] and load = inactive_load [OF none]
  have created: "requireActiveEngagement (snd (createEngagement target scope roe d tn s'))
       = Inr (m_id (fst (createEngagement target scope roe d tn s')))"
    by (simp add: requireActiveEngagement_def getActiveEngagementId_def createEngagement_active
        createEngagement_id candidate_id_nonempty)
  have resumed: "requireActiveEngagement (snd (resumeEngagement eid2 s')) = Inr eid2"
    if "metadata_json s' eid2 \<noteq> None \<and> eid2 \<noteq> []"
    using that by (auto simp: resumeEngagement_def requireActiveEngagement_def
        getActiveEngagementId_def setActiveEngagement_def)
  have c1: "snd r = (case status of None \<Rightarrow> Completed | Some v \<Rightarrow> v)"
    and c2: "\<exists>eid rec. requireActiveEngagement s = Inr eid \<and> metadata_json s' eid = Some rec
         \<and> m_status rec = snd r"
    using closeEngagement_status [OF assms] by blast+
  have c3: "getActiveEngagementId s' = None"
    using none by (simp add: getActiveEngagementId_def)
  have c6: "engagementStatus s' = Inl NoActiveEngagement"
    by (simp add: engagementStatus_def req)
  have c7: "closeEngagement status2 es2 ts2 s' = (Inl NoActiveEngagement, s')"
    by (simp add: closeEngagement_def req)
  have c8: "discoverHost ph h1 h2 h3 s' = (Inl NoActiveEngagement, s')"
    by (simp add: discoverHost_def load)
  have c9: "addFinding pa a1 a2 a3 s' = (Inl NoActiveEngagement, s')"
    by (simp add: addFinding_def load)
  have c10: "updateFinding pu u1 u2 s' = (Inl NoActiveEngagement, s')"
    by (simp add: updateFinding_def load)
  have c11: "saveEvidence pe e1 e2 s'
       = (Inl (if CHR ''/'' \<in> set (se_filename pe) \<or> CHR 0x5C \<in> set (se_filename pe)
               then InvalidFilename else NoActiveEngagement), s')"
    by (simp add: saveEvidence_def has_path_separator_def load)
  from c1 c2 c3 req load c6 c7 c8 c9 c10 c11 created resumed show ?thesis
    by (intro conjI impI)
qed

theorem close_deactivates_witness:
  "closeEngagement (Some Paused) None ''t9'' test_corp_store
     = (Inr (''2026-01-01-test-corp'', Paused), snd (closeEngagement (Some Paused) None ''t9'' test_corp_store))
   \<and> getActiveEngagementId (snd (closeEngagement (Some Paused) None ''t9'' test_corp_store)) = None
   \<and> fst (addFinding sqli_finding ''t10'' ''t10'' ''t11''
            (snd (closeEngagement (Some Paused) None ''t9'' test_corp_store))) = Inl NoActiveEngagement
   \<and> engagementStatus (snd (closeEngagement (Some Paused) None ''t9'' test_corp_store))
       = Inl NoActiveEngagement"
proof -
  let ?s' = "snd (closeEngagement (Some Paused) None ''t9'' test_corp_store)"
  have run: "closeEngagement (Some Paused) None ''t9'' test_corp_store
     = (Inr (''2026-01-01-test-corp'', Paused), ?s')"
    unfolding closeEngagement_active [OF test_corp_active]
    by (simp add: Let_def test_corp_meta_def makeEmptyMetadata_def)
  from close_deactivates [OF run, where pa = sqli_finding and ?a1.0 = "''t10''" and ?a2.0 = "''t10''"
      and ?a3.0 = "''t11''"]
  have "getActiveEngagementId ?s' = None"
    and "addFinding sqli_finding ''t10'' ''t10'' ''t11'' ?s' = (Inl NoActiveEngagement, ?s')"
    and "engagementStatus ?s' = Inl NoActiveEngagement"
    by simp_all
  with run show ?thesis
    by simp
qed

text \<open>
  The claim as stated gives \<^verbatim>\<open>NoActiveEngagement\<close> for every operation that needs
  an active engagement. After the test store is closed, \<^verbatim>\<open>evidence_save\<close> with
  the file name \<^verbatim>\<open>../evil.txt\<close> fails with \<^verbatim>\<open>InvalidFilename\<close> instead.
\<close>

theorem evidence_save_after_close_counterexample:
  "fst (closeEngagement None None ''t9'' test_corp_store) = Inr (''2026-01-01-test-corp'', Completed)
   \<and> getActiveEngagementId (snd (closeEngagement None None ''t9'' test_corp_store)) = None
   \<and> fst (saveEvidence evil_evidence ''t10'' ''t11''
            (snd (closeEngagement None None ''t9'' test_corp_store))) = Inl InvalidFilename"
  unfolding closeEngagement_active [OF test_corp_active]
  by (simp add: Let_def test_corp_meta_def makeEmptyMetadata_def getActiveEngagementId_def
      clearActiveEngagement_def saveEvidence_def has_path_separator_def evil_evidence_def)

section \<open>Saving evidence\<close>

lemma active_record_writeEvidenceFile [simp]:
  "active_record (writeEvidenceFile eid fn c s) = active_record s"
  by (simp add: active_record_def writeEvidenceFile_def split: option.splits)

lemma evidence_dir_save [simp]:
  "evidence_dir (saveMetadataAndRender ts meta s) = evidence_dir s"
  by (simp add: saveMetadataAndRender_def writeMetadata_def Let_def)

lemma evidence_dir_write:
  "evidence_dir (writeEvidenceFile eid fn c s) eid fn = Some c"
  by (simp add: writeEvidenceFile_def)

lemma saveEvidence_active:
  assumes "active_record s = Some meta" and "\<not> has_path_separator (se_filename params)"
    and "\<not> names_directory (se_filename params)" and "\<not> has_nul (se_filename params)"
  shows "saveEvidence params ts ts_save s =
     (let entry = \<lparr>e_filename = se_filename params,
                    e_description = or_else (se_description params) (se_filename params),
                    e_related_finding_id = or_null (se_related_finding_id params),
                    e_created_at = ts\<rparr>
      in (Inr (entry, evidence_dir s (m_id meta) (se_filename params) \<noteq> None),
          saveMetadataAndRender ts_save
            (meta\<lparr>m_evidence_index := upsert_evidence entry (m_evidence_index meta)\<rparr>)
            (writeEvidenceFile (m_id meta) (se_filename params) (se_content params) s)))"
  using assms
  by (simp add: saveEvidence_def loadActiveMetadata_active writeFileAtomic_def access_ok_def
      Let_def upsert_evidence_def split: option.splits)

lemma saveEvidence_unwritable:
  assumes "active_record s = Some meta" and "\<not> has_path_separator (se_filename params)"
    and "names_directory (se_filename params) \<or> has_nul (se_filename params)"
  shows "saveEvidence params ts ts_save s =
           (Inl (if has_nul (se_filename params) then ERR_INVALID_ARG_VALUE else EISDIR), s)"
  using assms
  by (simp add: saveEvidence_def loadActiveMetadata_active writeFileAtomic_def Let_def) blast

lemma saveEvidence_success_name:
  assumes "saveEvidence params ts ts_save s = (Inr r, s')"
  shows "\<not> has_path_separator (se_filename params) \<and> \<not> names_directory (se_filename params)
         \<and> \<not> has_nul (se_filename params)"
  using assms
  by (simp add: saveEvidence_def writeFileAtomic_def Let_def split: if_splits sum.splits)

lemma map_filename_upsert:
  "map e_filename (upsert_evidence entry idx) =
     (if e_filename entry \<in> set (map e_filename idx) then map e_filename idx
      else map e_filename idx @ [e_filename entry])"
proof (cases "findIndex (\<lambda>e. e_filename e = e_filename entry) idx")
  case None
  then have "\<not> list_ex (\<lambda>e. e_filename e = e_filename entry) idx"
    by (simp add: findIndex_None_iff)
  then have "e_filename entry \<notin> set (map e_filename idx)"
    by (auto simp: list_ex_iff)
  with None show ?thesis
    by (simp add: upsert_evidence_def)
next
  case (Some i)
  from findIndex_Some_props [OF Some]
  have i: "i < length idx" "e_filename (idx ! i) = e_filename entry"
    by simp_all
  then have "e_filename entry \<in> set (map e_filename idx)"
    by (metis image_eqI nth_mem set_map)
  moreover have "map e_filename (idx[i := entry]) = map e_filename idx"
    using i by (simp add: map_update list_update_same_conv)
  ultimately show ?thesis
    using Some by (simp add: upsert_evidence_def)
qed

lemma filter_upsert_new:
  "\<not> list_ex (\<lambda>e. e_filename e = e_filename entry) idx
     \<Longrightarrow> filter (\<lambda>e. e_filename e = e_filename entry) (upsert_evidence entry idx) = [entry]"
proof -
  assume a: "\<not> list_ex (\<lambda>e. e_filename e = e_filename entry) idx"
  then have "findIndex (\<lambda>e. e_filename e = e_filename entry) idx = None"
    by (simp add: findIndex_None_iff)
  moreover from a have "filter (\<lambda>e. e_filename e = e_filename entry) idx = []"
    by (simp add: list_ex_iff filter_empty_conv)
  ultimately show ?thesis
    by (simp add: upsert_evidence_def)
qed

lemma filter_upsert_single:
  assumes "filter (\<lambda>e. e_filename e = fn) idx = [old]" and "e_filename entry = fn"
  shows "filter (\<lambda>e. e_filename e = fn) (upsert_evidence entry idx) = [entry]
         \<and> length (upsert_evidence entry idx) = length idx"
  using assms
proof (induction idx)
  case Nil
  then show ?case by simp
next
  case (Cons x idx)
  show ?case
  proof (cases "e_filename x = fn")
    case True
    with Cons.prems have "filter (\<lambda>e. e_filename e = fn) idx = []"
      by simp
    with True Cons.prems(2) show ?thesis
      by (simp add: upsert_evidence_def)
  next
    case False
    with Cons.prems have "filter (\<lambda>e. e_filename e = fn) idx = [old]"
      by simp
    from Cons.IH [OF this Cons.prems(2)] False Cons.prems(2) show ?thesis
      by (simp add: upsert_evidence_def split: option.splits)
  qed
qed

text \<open>
  C9, as amended. \<^verbatim>\<open>evidence_save\<close> fails with \<^verbatim>\<open>InvalidFilename\<close> exactly
  when the file name holds \<^verbatim>\<open>/\<close> or a backslash. For a file name without
  them that names a file of the evidence directory (it is not empty, not
  \<^verbatim>\<open>.\<close> or \<^verbatim>\<open>..\<close>, and holds no NUL character), on the active record, when
  the evidence directory has no file of that name and the evidence index no entry
  for it (the first save of the name): the first save reports
  \<^verbatim>\<open>overwritten = false\<close> and stores its content, a second save of the same
  name reports \<^verbatim>\<open>overwritten = true\<close> and stores the new content, and after
  each of them the index holds exactly one entry for the name, the one just
  returned; the second save does not lengthen the index. In general a successful
  save keeps the file names of the index distinct when they were, and adds only
  the saved name to them.
\<close>

theorem evidence_save_overwrite:
  "(fst (saveEvidence p ts ts' s) = Inl InvalidFilename
      \<longleftrightarrow> CHR ''/'' \<in> set (se_filename p) \<or> CHR 0x5C \<in> set (se_filename p))
   \<and> (active_record s = Some meta
        \<and> CHR ''/'' \<notin> set (se_filename p1) \<and> CHR 0x5C \<notin> set (se_filename p1)
        \<and> se_filename p1 \<noteq> [] \<and> se_filename p1 \<noteq> ''.'' \<and> se_filename p1 \<noteq> ''..''
        \<and> CHR 0x00 \<notin> set (se_filename p1)
        \<and> se_filename p2 = se_filename p1
        \<and> evidence_dir s (m_id meta) (se_filename p1) = None
        \<and> \<not> list_ex (\<lambda>e. e_filename e = se_filename p1) (m_evidence_index meta)
      \<longrightarrow> (\<exists>e1 s1 m1 e2 s2 m2.
             saveEvidence p1 t1 t1' s = (Inr (e1, False), s1)
           \<and> saveEvidence p2 t2 t2' s1 = (Inr (e2, True), s2)
           \<and> evidence_dir s1 (m_id meta) (se_filename p1) = Some (se_content p1)
           \<and> evidence_dir s2 (m_id meta) (se_filename p1) = Some (se_content p2)
           \<and> active_record s1 = Some m1 \<and> active_record s2 = Some m2
           \<and> filter (\<lambda>e. e_filename e = se_filename p1) (m_evidence_index m1) = [e1]
           \<and> filter (\<lambda>e. e_filename e = se_filename p1) (m_evidence_index m2) = [e2]
           \<and> length (m_evidence_index m1) = Suc (length (m_evidence_index meta))
           \<and> length (m_evidence_index m2) = length (m_evidence_index m1)))
   \<and> (active_record s = Some meta
        \<and> distinct (map e_filename (m_evidence_index meta))
        \<and> saveEvidence p ts ts' s = (Inr r, s')
      \<longrightarrow> (\<exists>m'. active_record s' = Some m'
             \<and> distinct (map e_filename (m_evidence_index m'))
             \<and> set (map e_filename (m_evidence_index m'))
                 = insert (se_filename p) (set (map e_filename (m_evidence_index meta)))))"
proof (intro conjI impI)
  show "fst (saveEvidence p ts ts' s) = Inl InvalidFilename
      \<longleftrightarrow> CHR ''/'' \<in> set (se_filename p) \<or> CHR 0x5C \<in> set (se_filename p)"
    by (auto simp: saveEvidence_def has_path_separator_def writeFileAtomic_def Let_def
        loadActiveMetadata_def requireActiveEngagement_def split: sum.splits option.splits)
next
  assume a: "active_record s = Some meta
        \<and> CHR ''/'' \<notin> set (se_filename p1) \<and> CHR 0x5C \<notin> set (se_filename p1)
        \<and> se_filename p1 \<noteq> [] \<and> se_filename p1 \<noteq> ''.'' \<and> se_filename p1 \<noteq> ''..''
        \<and> CHR 0x00 \<notin> set (se_filename p1)
        \<and> se_filename p2 = se_filename p1
        \<and> evidence_dir s (m_id meta) (se_filename p1) = None
        \<and> \<not> list_ex (\<lambda>e. e_filename e = se_filename p1) (m_evidence_index meta)"
  let ?fn = "se_filename p1"
  let ?e1 = "\<lparr>e_filename = ?fn, e_description = or_else (se_description p1) ?fn,
              e_related_finding_id = or_null (se_related_finding_id p1), e_created_at = t1\<rparr>"
  let ?e2 = "\<lparr>e_filename = ?fn, e_description = or_else (se_description p2) ?fn,
              e_related_finding_id = or_null (se_related_finding_id p2), e_created_at = t2\<rparr>"
  let ?meta1 = "meta\<lparr>m_evidence_index := upsert_evidence ?e1 (m_evidence_index meta)\<rparr>"
  let ?w1 = "writeEvidenceFile (m_id meta) ?fn (se_content p1) s"
  let ?s1 = "saveMetadataAndRender t1' ?meta1 ?w1"
  let ?m1 = "?meta1\<lparr>m_updated_at := t1'\<rparr>"
  let ?meta2 = "?m1\<lparr>m_evidence_index := upsert_evidence ?e2 (m_evidence_index ?m1)\<rparr>"
  let ?w2 = "writeEvidenceFile (m_id meta) ?fn (se_content p2) ?s1"
  let ?s2 = "saveMetadataAndRender t2' ?meta2 ?w2"
  let ?m2 = "?meta2\<lparr>m_updated_at := t2'\<rparr>"
  from a have act: "active_record s = Some meta"
    and sep1: "\<not> has_path_separator (se_filename p1)"
    and sep2: "\<not> has_path_separator (se_filename p2)"
    and dir1: "\<not> names_directory (se_filename p1)"
    and dir2: "\<not> names_directory (se_filename p2)"
    and nul1: "\<not> has_nul (se_filename p1)"
    and nul2: "\<not> has_nul (se_filename p2)"
    and fn2: "se_filename p2 = ?fn"
    and absent: "evidence_dir s (m_id meta) ?fn = None"
    and fresh: "\<not> list_ex (\<lambda>e. e_filename e = e_filename ?e1) (m_evidence_index meta)"
    by (simp_all add: has_path_separator_def names_directory_def has_nul_def)
  have run1: "saveEvidence p1 t1 t1' s = (Inr (?e1, False), ?s1)"
    unfolding saveEvidence_active [OF act sep1 dir1 nul1] using absent by (simp add: Let_def)
  have act0: "active_record ?w1 = Some meta"
    using act by simp
  have act1: "active_record ?s1 = Some ?m1"
    using active_record_save [OF act0, of ?meta1 t1'] by simp
  have file1: "evidence_dir ?s1 (m_id meta) ?fn = Some (se_content p1)"
    by (simp add: evidence_dir_write)
  have id1: "m_id ?m1 = m_id meta"
    by simp
  have run2: "saveEvidence p2 t2 t2' ?s1 = (Inr (?e2, True), ?s2)"
    unfolding saveEvidence_active [OF act1 sep2 dir2 nul2] using file1 fn2 by (simp add: Let_def)
  have act1w: "active_record ?w2 = Some ?m1"
    using act1 by simp
  have act2: "active_record ?s2 = Some ?m2"
    using active_record_save [OF act1w, of ?meta2 t2'] by simp
  have file2: "evidence_dir ?s2 (m_id meta) ?fn = Some (se_content p2)"
    by (simp add: evidence_dir_write)
  have one1: "filter (\<lambda>e. e_filename e = ?fn) (m_evidence_index ?m1) = [?e1]"
    using filter_upsert_new [OF fresh] by simp
  have len1: "length (m_evidence_index ?m1) = Suc (length (m_evidence_index meta))"
    using fresh by (simp add: upsert_evidence_def findIndex_None_iff [THEN iffD2])
  have two: "filter (\<lambda>e. e_filename e = ?fn) (upsert_evidence ?e2 (m_evidence_index ?m1)) = [?e2]
         \<and> length (upsert_evidence ?e2 (m_evidence_index ?m1)) = length (m_evidence_index ?m1)"
    by (rule filter_upsert_single [OF one1]) simp
  have one2: "filter (\<lambda>e. e_filename e = ?fn) (m_evidence_index ?m2) = [?e2]"
    and len2: "length (m_evidence_index ?m2) = length (m_evidence_index ?m1)"
    using two by simp_all
  from run1 run2 file1 file2 act1 act2 one1 one2 len1 len2
  show "\<exists>e1 s1 m1 e2 s2 m2.
             saveEvidence p1 t1 t1' s = (Inr (e1, False), s1)
           \<and> saveEvidence p2 t2 t2' s1 = (Inr (e2, True), s2)
           \<and> evidence_dir s1 (m_id meta) (se_filename p1) = Some (se_content p1)
           \<and> evidence_dir s2 (m_id meta) (se_filename p1) = Some (se_content p2)
           \<and> active_record s1 = Some m1 \<and> active_record s2 = Some m2
           \<and> filter (\<lambda>e. e_filename e = se_filename p1) (m_evidence_index m1) = [e1]
           \<and> filter (\<lambda>e. e_filename e = se_filename p1) (m_evidence_index m2) = [e2]
           \<and> length (m_evidence_index m1) = Suc (length (m_evidence_index meta))
           \<and> length (m_evidence_index m2) = length (m_evidence_index m1)"
    by (intro exI [of _ ?e1] exI [of _ ?s1] exI [of _ ?m1] exI [of _ ?e2] exI [of _ ?s2]
        exI [of _ ?m2] conjI)
next
  assume a: "active_record s = Some meta
        \<and> distinct (map e_filename (m_evidence_index meta))
        \<and> saveEvidence p ts ts' s = (Inr r, s')"
  then have act: "active_record s = Some meta"
    and dist: "distinct (map e_filename (m_evidence_index meta))"
    and run: "saveEvidence p ts ts' s = (Inr r, s')"
    by simp_all
  from saveEvidence_success_name [OF run]
  have sep: "\<not> has_path_separator (se_filename p)"
    and dir: "\<not> names_directory (se_filename p)"
    and nul: "\<not> has_nul (se_filename p)"
    by simp_all
  let ?e = "\<lparr>e_filename = se_filename p, e_description = or_else (se_description p) (se_filename p),
              e_related_finding_id = or_null (se_related_finding_id p), e_created_at = ts\<rparr>"
  let ?meta' = "meta\<lparr>m_evidence_index := upsert_evidence ?e (m_evidence_index meta)\<rparr>"
  let ?w = "writeEvidenceFile (m_id meta) (se_filename p) (se_content p) s"
  from run have s': "s' = saveMetadataAndRender ts' ?meta' ?w"
    unfolding saveEvidence_active [OF act sep dir nul] by (simp add: Let_def)
  have "active_record ?w = Some meta"
    using act by simp
  from active_record_save [OF this, of ?meta' ts']
  have act': "active_record s' = Some (?meta'\<lparr>m_updated_at := ts'\<rparr>)"
    unfolding s' by simp
  have names: "map e_filename (m_evidence_index (?meta'\<lparr>m_updated_at := ts'\<rparr>))
      = (if se_filename p \<in> set (map e_filename (m_evidence_index meta))
         then map e_filename (m_evidence_index meta)
         else map e_filename (m_evidence_index meta) @ [se_filename p])"
    using map_filename_upsert [of ?e "m_evidence_index meta"] by simp
  have d: "distinct (map e_filename (m_evidence_index (?meta'\<lparr>m_updated_at := ts'\<rparr>)))"
    unfolding names using dist by simp
  have st: "set (map e_filename (m_evidence_index (?meta'\<lparr>m_updated_at := ts'\<rparr>)))
      = insert (se_filename p) (set (map e_filename (m_evidence_index meta)))"
    unfolding names by auto
  from act' d st
  show "\<exists>m'. active_record s' = Some m'
             \<and> distinct (map e_filename (m_evidence_index m'))
             \<and> set (map e_filename (m_evidence_index m'))
                 = insert (se_filename p) (set (map e_filename (m_evidence_index meta)))"
    by (intro exI [of _ "?meta'\<lparr>m_updated_at := ts'\<rparr>"] conjI)
qed

theorem evidence_save_overwrite_witness:
  "active_record test_corp_store = Some test_corp_meta
   \<and> m_id test_corp_meta = ''2026-01-01-test-corp''
   \<and> evidence_dir test_corp_store ''2026-01-01-test-corp'' ''a.txt'' = None
   \<and> m_evidence_index test_corp_meta = []
   \<and> fst (saveEvidence evil_evidence ''t1'' ''t2'' test_corp_store) = Inl InvalidFilename
   \<and> (\<exists>e1 s1 e2 s2 m2.
         saveEvidence proof_v1 ''t1'' ''t2'' test_corp_store = (Inr (e1, False), s1)
       \<and> saveEvidence proof_v2 ''t3'' ''t4'' s1 = (Inr (e2, True), s2)
       \<and> evidence_dir s2 ''2026-01-01-test-corp'' ''a.txt'' = Some ''v2''
       \<and> active_record s2 = Some m2
       \<and> m_evidence_index m2 = [e2])"
proof -
  have id: "m_id test_corp_meta = ''2026-01-01-test-corp''"
    and idx: "m_evidence_index test_corp_meta = []"
    by (simp_all add: test_corp_meta_def makeEmptyMetadata_def)
  have absent: "evidence_dir test_corp_store ''2026-01-01-test-corp'' ''a.txt'' = None"
    by (simp add: test_corp_store_eq)
  have evil: "fst (saveEvidence evil_evidence ''t1'' ''t2'' test_corp_store) = Inl InvalidFilename"
    using evidence_save_overwrite [of evil_evidence "''t1''" "''t2''" test_corp_store,
        THEN conjunct1, THEN iffD2]
    by (simp add: evil_evidence_def)
  have pre: "active_record test_corp_store = Some test_corp_meta
        \<and> CHR ''/'' \<notin> set (se_filename proof_v1) \<and> CHR 0x5C \<notin> set (se_filename proof_v1)
        \<and> se_filename proof_v1 \<noteq> [] \<and> se_filename proof_v1 \<noteq> ''.''
        \<and> se_filename proof_v1 \<noteq> ''..''
        \<and> CHR 0x00 \<notin> set (se_filename proof_v1)
        \<and> se_filename proof_v2 = se_filename proof_v1
        \<and> evidence_dir test_corp_store (m_id test_corp_meta) (se_filename proof_v1) = None
        \<and> \<not> list_ex (\<lambda>e. e_filename e = se_filename proof_v1) (m_evidence_index test_corp_meta)"
    using test_corp_active absent by (simp add: id idx proof_v1_def proof_v2_def)
  from evidence_save_overwrite [where s = test_corp_store and meta = test_corp_meta
      and ?p1.0 = proof_v1 and ?p2.0 = proof_v2 and ?t1.0 = "''t1''" and t1' = "''t2''"
      and ?t2.0 = "''t3''" and t2' = "''t4''", THEN conjunct2, THEN conjunct1, THEN mp, OF pre]
  obtain e1 s1 m1 e2 s2 m2 where all:
    "saveEvidence proof_v1 ''t1'' ''t2'' test_corp_store = (Inr (e1, False), s1)
     \<and> saveEvidence proof_v2 ''t3'' ''t4'' s1 = (Inr (e2, True), s2)
     \<and> evidence_dir s1 (m_id test_corp_meta) (se_filename proof_v1) = Some (se_content proof_v1)
     \<and> evidence_dir s2 (m_id test_corp_meta) (se_filename proof_v1) = Some (se_content proof_v2)
     \<and> active_record s1 = Some m1 \<and> active_record s2 = Some m2
     \<and> filter (\<lambda>e. e_filename e = se_filename proof_v1) (m_evidence_index m1) = [e1]
     \<and> filter (\<lambda>e. e_filename e = se_filename proof_v1) (m_evidence_index m2) = [e2]
     \<and> length (m_evidence_index m1) = Suc (length (m_evidence_index test_corp_meta))
     \<and> length (m_evidence_index m2) = length (m_evidence_index m1)"
    by (elim exE) (rule that)
  then have r:
    "saveEvidence proof_v1 ''t1'' ''t2'' test_corp_store = (Inr (e1, False), s1)"
    "saveEvidence proof_v2 ''t3'' ''t4'' s1 = (Inr (e2, True), s2)"
    "evidence_dir s2 (m_id test_corp_meta) (se_filename proof_v1) = Some (se_content proof_v2)"
    "active_record s2 = Some m2"
    "filter (\<lambda>e. e_filename e = se_filename proof_v1) (m_evidence_index m2) = [e2]"
    "length (m_evidence_index m1) = Suc (length (m_evidence_index test_corp_meta))"
    "length (m_evidence_index m2) = length (m_evidence_index m1)"
    by simp_all
  have stored: "evidence_dir s2 ''2026-01-01-test-corp'' ''a.txt'' = Some ''v2''"
    using r(3) by (simp add: id proof_v1_def proof_v2_def)
  have "length (m_evidence_index m2) = 1"
    using r(6,7) by (simp add: idx)
  then obtain x where x: "m_evidence_index m2 = [x]"
    by (cases "m_evidence_index m2") simp_all
  with r(5) have only: "m_evidence_index m2 = [e2]"
    by (simp split: if_splits)
  from r(1,2) stored r(4) only
  have "\<exists>e1 s1 e2 s2 m2.
         saveEvidence proof_v1 ''t1'' ''t2'' test_corp_store = (Inr (e1, False), s1)
       \<and> saveEvidence proof_v2 ''t3'' ''t4'' s1 = (Inr (e2, True), s2)
       \<and> evidence_dir s2 ''2026-01-01-test-corp'' ''a.txt'' = Some ''v2''
       \<and> active_record s2 = Some m2
       \<and> m_evidence_index m2 = [e2]"
    by (intro exI [of _ e1] exI [of _ s1] exI [of _ e2] exI [of _ s2] exI [of _ m2] conjI)
  with test_corp_active id absent idx evil show ?thesis
    by (intro conjI)
qed

text \<open>
  The claim as stated gives the first save of every name without a path separator
  the report \<^verbatim>\<open>overwritten = false\<close>. On the test store, where the evidence
  directory is empty and the evidence index has no entry, the first save under the
  name \<^verbatim>\<open>..\<close> reports nothing: the name holds no separator, the path is the
  engagement directory, and the rename in \<^verbatim>\<open>writeFileAtomic\<close> fails. A name
  with a NUL character holds no separator either and is refused by
  \<^verbatim>\<open>fs.writeFile\<close>.
\<close>

theorem evidence_save_directory_name_counterexample:
  "active_record test_corp_store = Some test_corp_meta
   \<and> m_evidence_index test_corp_meta = []
   \<and> evidence_dir test_corp_store (m_id test_corp_meta) (se_filename dotdot_evidence) = None
   \<and> CHR ''/'' \<notin> set (se_filename dotdot_evidence)
   \<and> CHR 0x5C \<notin> set (se_filename dotdot_evidence)
   \<and> saveEvidence dotdot_evidence ''t1'' ''t2'' test_corp_store = (Inl EISDIR, test_corp_store)
   \<and> CHR ''/'' \<notin> set (se_filename nul_evidence)
   \<and> CHR 0x5C \<notin> set (se_filename nul_evidence)
   \<and> saveEvidence nul_evidence ''t1'' ''t2'' test_corp_store
       = (Inl ERR_INVALID_ARG_VALUE, test_corp_store)"
proof -
  have idx: "m_evidence_index test_corp_meta = []"
    by (simp add: test_corp_meta_def makeEmptyMetadata_def)
  have absent: "evidence_dir test_corp_store (m_id test_corp_meta) (se_filename dotdot_evidence) = None"
    by (simp add: test_corp_store_eq)
  have sep1: "CHR ''/'' \<notin> set (se_filename dotdot_evidence)"
    "CHR 0x5C \<notin> set (se_filename dotdot_evidence)"
    by (simp_all add: dotdot_evidence_def)
  have sep2: "CHR ''/'' \<notin> set (se_filename nul_evidence)"
    "CHR 0x5C \<notin> set (se_filename nul_evidence)"
    by (simp_all add: nul_evidence_def)
  have r1: "saveEvidence dotdot_evidence ''t1'' ''t2'' test_corp_store = (Inl EISDIR, test_corp_store)"
    using saveEvidence_unwritable [OF test_corp_active, of dotdot_evidence "''t1''" "''t2''"]
    by (simp add: dotdot_evidence_def has_path_separator_def names_directory_def has_nul_def)
  have r2: "saveEvidence nul_evidence ''t1'' ''t2'' test_corp_store
       = (Inl ERR_INVALID_ARG_VALUE, test_corp_store)"
    using saveEvidence_unwritable [OF test_corp_active, of nul_evidence "''t1''" "''t2''"]
    by (simp add: nul_evidence_def has_path_separator_def names_directory_def has_nul_def)
  from test_corp_active idx absent sep1 r1 sep2 r2 show ?thesis
    by (intro conjI)
qed

section \<open>Finding ids\<close>

lemma digit_char_cases:
  "d < 10 \<Longrightarrow> digit_char d \<in> set ''0123456789''"
  unfolding digit_char_def
  by (auto simp: less_Suc_eq numeral_nat elim!: less_SucE)

lemma is_digit_digit_char: "d < 10 \<Longrightarrow> is_digit (digit_char d)"
  unfolding is_digit_def by (rule digit_char_cases)

lemma show_nat_all_digits: "\<forall>c\<in>set (show_nat n). is_digit c"
proof (induction n rule: show_nat.induct)
  case (1 n)
  show ?case
  proof (cases "n < 10")
    case True
    then show ?thesis
      by (simp add: show_nat.simps [of n] is_digit_digit_char)
  next
    case False
    with 1 show ?thesis
      by (simp add: show_nat.simps [of n] is_digit_digit_char)
  qed
qed

lemma show_nat_nonempty: "show_nat n \<noteq> []"
  by (subst show_nat.simps) simp

lemma digit_val_zero: "digit_val CHR ''0'' = 0"
  by (simp add: digit_val_def)

lemma digits_val_Cons_zero: "digits_val (CHR ''0'' # s) = digits_val s"
  by (simp add: digits_val_def digit_val_zero)

lemma digits_val_zeros: "digits_val (replicate k CHR ''0'' @ s) = digits_val s"
  by (induction k) (simp_all add: digits_val_Cons_zero)

lemma is_digit_zero: "is_digit CHR ''0''"
  by (simp add: is_digit_def)

lemma padStart3_digits:
  "padStart3 (show_nat n) \<noteq> [] \<and> (\<forall>c\<in>set (padStart3 (show_nat n)). is_digit c)
   \<and> digits_val (padStart3 (show_nat n)) = n"
  using show_nat_all_digits [of n] show_nat_nonempty [of n]
  by (auto simp: padStart3_def digits_val_zeros digits_val_show_nat is_digit_zero)

lemma digit_not_space: "is_digit c \<Longrightarrow> \<not> is_space c"
  by (auto simp: is_digit_def is_space_def)

lemma digit_not_sign: "is_digit c \<Longrightarrow> c \<noteq> CHR ''-'' \<and> c \<noteq> CHR ''+''"
  by (auto simp: is_digit_def)

lemma parseInt10_digits:
  assumes "s \<noteq> []" and "\<forall>c\<in>set s. is_digit c"
  shows "parseInt10 s = Some (int (digits_val s))"
proof -
  from assms obtain c cs where s: "s = c # cs" and c: "is_digit c"
    by (cases s) auto
  have drop: "dropWhile is_space s = s"
    using s c by (simp add: digit_not_space)
  have take: "takeWhile is_digit s = s"
    using assms(2) by (simp add: takeWhile_eq_all_conv)
  have hd: "hd s \<noteq> CHR ''-''" "hd s \<noteq> CHR ''+''"
    using s digit_not_sign [OF c] by simp_all
  show ?thesis
    by (simp add: parseInt10_def Let_def drop hd take assms(1))
qed

lemma replace_first_prefix: "replace_first ''F-'' [] (''F-'' @ r) = r"
  by simp

lemma parse_finding_id:
  "parseInt10 (replace_first ''F-'' [] (finding_id n)) = Some (int n)"
  using padStart3_digits [of n]
  unfolding finding_id_def replace_first_prefix
  by (simp add: parseInt10_digits)

lemma max_step_finding_id: "f_id f = finding_id n \<Longrightarrow> max_step mx f = max mx (int n)"
  by (simp add: max_step_def parse_finding_id max_def)

lemma foldl_max_step:
  "map f_id fs = map finding_id ks \<Longrightarrow> foldl max_step a fs = foldl max a (map int ks)"
proof (induction fs arbitrary: a ks)
  case Nil
  then show ?case by simp
next
  case (Cons f fs)
  then obtain k ks' where ks: "ks = k # ks'" "f_id f = finding_id k" "map f_id fs = map finding_id ks'"
    by (cases ks) auto
  with Cons.IH [OF ks(3)] show ?case
    by (simp add: max_step_finding_id)
qed

lemma foldl_max_Max: "foldl max (a::int) xs = Max (insert a (set xs))"
proof -
  have "(\<lambda>x y. max y x) = (max :: int \<Rightarrow> int \<Rightarrow> int)"
    by (intro ext) (simp add: max.commute)
  then have "foldl max a xs = fold max xs a"
    by (simp add: foldl_conv_fold)
  also have "\<dots> = Max (set (a # xs))"
    by (simp only: Max.set_eq_fold)
  finally show ?thesis by simp
qed

lemma show_int_Suc: "show_int (int m + 1) = show_nat (Suc m)"
proof -
  have "nat (int m + 1) = Suc m" by simp
  then show ?thesis
    by (simp add: show_int_def del: of_nat_Suc)
qed

lemma Max_int_image:
  "Max (insert 0 (int ` set ks)) = int (Max (insert 0 (set ks)))"
proof -
  have "int (Max (insert 0 (set ks))) = Max (int ` insert 0 (set ks))"
    by (rule mono_Max_commute) (auto simp: mono_def)
  then show ?thesis by simp
qed

lemma nextFindingId_wellformed:
  assumes "map f_id fs = map finding_id ks"
  shows "nextFindingId fs = finding_id (Suc (Max (insert 0 (set ks))))"
proof -
  have "foldl max_step 0 fs = int (Max (insert 0 (set ks)))"
    using foldl_max_step [OF assms, of 0] by (simp add: foldl_max_Max Max_int_image)
  then show ?thesis
    by (simp only: nextFindingId_def finding_id_def show_int_Suc)
qed

lemma Max_upto: "Max (insert 0 (set [1..<Suc k])) = k"
proof (rule Max_eqI)
  show "finite (insert 0 (set [1..<Suc k]))" by simp
  show "y \<le> k" if "y \<in> insert 0 (set [1..<Suc k])" for y
    using that by auto
  show "k \<in> insert 0 (set [1..<Suc k])"
    by (cases k) auto
qed

lemma nextFindingId_upto:
  "map f_id fs = map finding_id [1..<Suc k] \<Longrightarrow> nextFindingId fs = finding_id (Suc k)"
  by (simp only: nextFindingId_wellformed Max_upto)

lemma apply_update_keeps_id: "apply_update params ts f = Inr f' \<Longrightarrow> f_id f' = f_id f"
  by (auto simp: apply_update_def Let_def split: option.splits if_splits)

lemma map_f_id_update:
  "i < length fs \<Longrightarrow> f_id f' = f_id (fs ! i) \<Longrightarrow> map f_id (fs[i := f']) = map f_id fs"
  by (simp add: map_update list_update_same_conv)

lemma addFinding_accepted:
  assumes "active_record s = Some m"
    and "map f_id (m_findings m) = map finding_id [1..<Suc k]"
    and "accepted_add (Add params ts1 ts2 ts_save)"
  shows "\<exists>f s' m'. addFinding params ts1 ts2 ts_save s = (Inr f, s') \<and> f_id f = finding_id (Suc k)
           \<and> active_record s' = Some m'
           \<and> map f_id (m_findings m') = map finding_id [1..<Suc (Suc k)]"
proof -
  let ?f = "\<lparr>f_id = nextFindingId (m_findings m), f_host = af_host params,
             f_vulnerability = af_vulnerability params,
             f_severity = af_severity params, f_cvss = af_cvss params,
             f_status = (case af_status params of None \<Rightarrow> Confirmed | Some v \<Rightarrow> v),
             f_evidence_file = or_null (af_evidence_file params),
             f_notes = or_else (af_notes params) [],
             f_created_at = ts1, f_updated_at = ts2\<rparr>"
  let ?meta' = "m\<lparr>m_findings := m_findings m @ [?f]\<rparr>"
  let ?s' = "saveMetadataAndRender ts_save ?meta' s"
  have ok: "\<not> (case af_cvss params of None \<Rightarrow> False | Some c \<Rightarrow> cvss_out_of_range c)"
    using assms(3) by (simp split: option.splits)
  have run: "addFinding params ts1 ts2 ts_save s = (Inr ?f, ?s')"
    unfolding addFinding_loaded [OF loadActiveMetadata_active [OF assms(1)]]
    using ok by (simp add: Let_def)
  have fid: "f_id ?f = finding_id (Suc k)"
    using nextFindingId_upto [OF assms(2)] by simp
  have act: "active_record ?s' = Some (?meta'\<lparr>m_updated_at := ts_save\<rparr>)"
    using active_record_save [OF assms(1), of ?meta' ts_save] by simp
  have ids: "map f_id (m_findings (?meta'\<lparr>m_updated_at := ts_save\<rparr>)) = map finding_id [1..<Suc (Suc k)]"
    using assms(2) fid by simp
  from run fid act ids show ?thesis
    by (intro exI [of _ ?f] exI [of _ ?s'] exI [of _ "?meta'\<lparr>m_updated_at := ts_save\<rparr>"] conjI)
qed

lemma addFinding_rejected:
  assumes "active_record s = Some m" and "\<not> accepted_add (Add params ts1 ts2 ts_save)"
  shows "addFinding params ts1 ts2 ts_save s = (Inl InvalidCvss, s)"
  unfolding addFinding_loaded [OF loadActiveMetadata_active [OF assms(1)]]
  using assms(2) by (simp split: option.splits)

lemma updateFinding_keeps_ids:
  assumes "active_record s = Some m"
  shows "\<exists>m'. active_record (snd (updateFinding params ts ts_save s)) = Some m'
           \<and> map f_id (m_findings m') = map f_id (m_findings m)"
proof (cases "findIndex (\<lambda>f. f_id f = uf_id params) (m_findings m)")
  case None
  then have "updateFinding params ts ts_save s = (Inl FindingNotFound, s)"
    by (simp add: updateFinding_def loadActiveMetadata_active [OF assms])
  with assms show ?thesis by simp
next
  case (Some i)
  note upd = updateFinding_loaded [OF loadActiveMetadata_active [OF assms] Some]
  show ?thesis
  proof (cases "apply_update params ts (m_findings m ! i)")
    case (Inl e)
    with upd have "updateFinding params ts ts_save s = (Inl e, s)" by simp
    with assms show ?thesis by simp
  next
    case (Inr f')
    let ?meta' = "m\<lparr>m_findings := (m_findings m)[i := f']\<rparr>"
    from upd Inr have "snd (updateFinding params ts ts_save s) = saveMetadataAndRender ts_save ?meta' s"
      by simp
    moreover have "active_record (saveMetadataAndRender ts_save ?meta' s)
        = Some (?meta'\<lparr>m_updated_at := ts_save\<rparr>)"
      using active_record_save [OF assms, of ?meta' ts_save] by simp
    moreover have "map f_id (m_findings (?meta'\<lparr>m_updated_at := ts_save\<rparr>)) = map f_id (m_findings m)"
      using findIndex_Some_props [OF Some] apply_update_keeps_id [OF Inr]
      by (simp add: map_f_id_update)
    ultimately show ?thesis
      by (intro exI [of _ "?meta'\<lparr>m_updated_at := ts_save\<rparr>"]) simp
  qed
qed

lemma run_findings_ids:
  "active_record s = Some m \<Longrightarrow> map f_id (m_findings m) = map finding_id [1..<Suc k]
     \<Longrightarrow> fst (run_findings calls s) = map finding_id [Suc k..<Suc (k + length (filter accepted_add calls))]"
proof (induction calls arbitrary: s m k)
  case Nil
  show ?case by simp
next
  case (Cons call calls)
  show ?case
  proof (cases call)
    case (Add params ts1 ts2 ts_save)
    show ?thesis
    proof (cases "accepted_add call")
      case True
      from addFinding_accepted [OF Cons.prems True [unfolded Add]]
      obtain f s' m' where step: "addFinding params ts1 ts2 ts_save s = (Inr f, s')"
        "f_id f = finding_id (Suc k)" "active_record s' = Some m'"
        "map f_id (m_findings m') = map finding_id [1..<Suc (Suc k)]"
        by (elim exE conjE)
      from Cons.IH [OF step(3,4)]
      have "fst (run_findings calls s')
          = map finding_id [Suc (Suc k)..<Suc (Suc k + length (filter accepted_add calls))]" .
      then have rest: "fst (run_findings calls s')
          = map finding_id [Suc (Suc k)..<Suc (Suc (k + length (filter accepted_add calls)))]"
        by simp
      have first: "fst (run_findings (call # calls) s) = f_id f # fst (run_findings calls s')"
        by (simp add: Add step(1) split: prod.splits)
      have count: "length (filter accepted_add (call # calls)) = Suc (length (filter accepted_add calls))"
        using True by simp
      have "Suc k < Suc (k + Suc (length (filter accepted_add calls)))"
        by simp
      from upt_conv_Cons [OF this]
      have l: "[Suc k..<Suc (k + Suc (length (filter accepted_add calls)))]
          = Suc k # [Suc (Suc k)..<Suc (Suc (k + length (filter accepted_add calls)))]"
        by (simp only: add_Suc_right)
      show ?thesis
        by (simp only: first count l rest step(2) list.map)
    next
      case False
      from addFinding_rejected [OF Cons.prems(1) False [unfolded Add]]
      have "addFinding params ts1 ts2 ts_save s = (Inl InvalidCvss, s)" .
      with Cons.IH [OF Cons.prems] False show ?thesis
        by (simp add: Add)
    qed
  next
    case (Update params ts ts_save)
    from updateFinding_keeps_ids [OF Cons.prems(1), of params ts ts_save]
    obtain m' where "active_record (snd (updateFinding params ts ts_save s)) = Some m'"
      "map f_id (m_findings m') = map f_id (m_findings m)"
      by (elim exE conjE)
    with Cons.prems(2) have "fst (run_findings calls (snd (updateFinding params ts ts_save s)))
        = map finding_id [Suc k..<Suc (k + length (filter accepted_add calls))]"
      using Cons.IH by simp
    then show ?thesis
      by (simp add: Update)
  qed
qed

lemma finding_id_examples:
  "finding_id 1 = ''F-001''" "finding_id 2 = ''F-002''" "finding_id 3 = ''F-003''"
  "finding_id 12 = ''F-012''" "finding_id 999 = ''F-999''" "finding_id 1000 = ''F-1000''"
  by (simp_all add: finding_id_def padStart3_def show_nat.simps digit_char_def numeral_2_eq_2)

text \<open>
  C3. From an active record with no findings, any sequence of \<^verbatim>\<open>finding_add\<close>
  and \<^verbatim>\<open>finding_update\<close> calls returns, for its successful adds in call order,
  exactly the ids of the numbers 1, 2, ..., N, where N is the number of adds that
  pass the CVSS check; updates and rejected adds between them change nothing in the
  numbering. The id of a number is \<^verbatim>\<open>F-\<close> followed by its decimal digits, padded
  with zeros to three digits and left as it is beyond 999. In general, when the
  existing ids are the ids of the numbers \<open>ks\<close>, the next id is the id of their
  maximum plus one, and \<^verbatim>\<open>F-001\<close> when there are no findings.
\<close>

theorem finding_ids_sequential:
  "(active_record s = Some meta \<and> m_findings meta = []
      \<longrightarrow> fst (run_findings calls s)
            = map finding_id [1..<Suc (length (filter accepted_add calls))])
   \<and> (map f_id fs = map finding_id ks
      \<longrightarrow> nextFindingId fs = finding_id (Suc (Max (insert 0 (set ks)))))
   \<and> nextFindingId [] = ''F-001''
   \<and> finding_id 1 = ''F-001'' \<and> finding_id 2 = ''F-002'' \<and> finding_id 12 = ''F-012''
   \<and> finding_id 999 = ''F-999'' \<and> finding_id 1000 = ''F-1000''"
proof (intro conjI impI)
  assume "active_record s = Some meta \<and> m_findings meta = []"
  then have "active_record s = Some meta" "map f_id (m_findings meta) = map finding_id [1..<Suc 0]"
    by simp_all
  from run_findings_ids [OF this, of calls]
  show "fst (run_findings calls s) = map finding_id [1..<Suc (length (filter accepted_add calls))]"
    by simp
next
  assume "map f_id fs = map finding_id ks"
  then show "nextFindingId fs = finding_id (Suc (Max (insert 0 (set ks))))"
    by (rule nextFindingId_wellformed)
next
  show "nextFindingId [] = ''F-001''"
    by (rule nextFindingId_Nil)
qed (rule finding_id_examples)+

theorem finding_ids_sequential_witness:
  "active_record test_corp_store = Some test_corp_meta
   \<and> m_findings test_corp_meta = []
   \<and> length (filter accepted_add scenario_calls) = 3
   \<and> fst (run_findings scenario_calls test_corp_store) = [''F-001'', ''F-002'', ''F-003'']"
proof -
  have empty: "m_findings test_corp_meta = []"
    by (simp add: test_corp_meta_def makeEmptyMetadata_def)
  have count: "length (filter accepted_add scenario_calls) = 3"
    by (simp add: scenario_calls_def cvss_call_def sqli_finding_def cvss_out_of_range_def)
  have "[1..<Suc 3] = [1, 2, 3]"
    by (simp add: upt_rec)
  with finding_ids_sequential [of test_corp_store test_corp_meta scenario_calls,
      THEN conjunct1, THEN mp] test_corp_active empty
  have "fst (run_findings scenario_calls test_corp_store) = [''F-001'', ''F-002'', ''F-003'']"
    using finding_id_examples(1) by (simp add: count finding_id_examples)
  with test_corp_active empty count show ?thesis
    by (intro conjI)
qed

end
